theory Spec2Isabelle
  imports Complex_Main "HOL-Library.Sublist"
begin

chapter \<open>The model\<close>

section \<open>Strings\<close>

text \<open>
  Python strings are modelled as \<open>string\<close>; every \<open>char\<close> stands for one code point
  below 256. \<open>is_space\<close> is \<open>str.isspace\<close> on that range, \<open>lstrip\<close> is
  \<open>str.lstrip()\<close> without arguments, and \<open>rfind c s\<close> is \<open>s.rfind(c)\<close> for a
  one-character needle, with \<open>None\<close> for the result \<open>-1\<close>.
\<close>

definition is_space :: "char \<Rightarrow> bool" where
  "is_space c = (of_char c \<in> {9, 10, 11, 12, 13, 28, 29, 30, 31, 32, 133, 160 :: nat})"

definition lstrip :: "string \<Rightarrow> string" where
  "lstrip s = dropWhile is_space s"

fun rfind :: "char \<Rightarrow> string \<Rightarrow> nat option" where
  "rfind c [] = None"
| "rfind c (x # xs) =
     (case rfind c xs of
        Some i \<Rightarrow> Some (Suc i)
      | None \<Rightarrow> if x = c then Some 0 else None)"

text \<open>
  \<open>lower\<close> is \<open>str.lower()\<close> on the code points below 256: the letters A to Z and
  the Latin-1 capitals (192 to 222 without the multiplication sign 215) move up by 32.
  \<open>contains needle s\<close> is Python's \<open>needle in s\<close> for strings.
\<close>

definition lower_char :: "char \<Rightarrow> char" where
  "lower_char c =
     (let n = (of_char c :: nat)
      in if (65 \<le> n \<and> n \<le> 90) \<or> (192 \<le> n \<and> n \<le> 222 \<and> n \<noteq> 215)
         then char_of (n + 32) else c)"

definition lower :: "string \<Rightarrow> string" where
  "lower s = map lower_char s"

fun contains :: "string \<Rightarrow> string \<Rightarrow> bool" where
  "contains needle [] = (needle = [])"
| "contains needle (c # cs) = (prefix needle (c # cs) \<or> contains needle cs)"

section \<open>score\_jobs.py: skill\_score\<close>

text \<open>
  The skills profile \<open>MY_SKILLS\<close> is a dictionary from bucket names to either a list
  of skills or a dictionary from skills to years; Python iterates over it in the order
  of the literal.

  Floating point: with \<open>fl\<close> the rounding of a real number to the nearest double, the
  float operations of the source are \<open>fl (a + b)\<close>, \<open>fl (a / b)\<close> and \<open>fl (a * b)\<close>,
  and a float literal \<open>1.2\<close> is \<open>fl (12 / 10)\<close>. \<open>fl\<close> is a parameter of the model.
  All that is used of it is collected in \<open>float_rounding\<close>: it is monotone, it leaves
  the values it returns unchanged, and 0, 1 and 100 are representable. The identity
  (exact arithmetic) is one such function.

  \<open>fuzz.partial_ratio\<close> belongs to the library rapidfuzz; it is the parameter
  \<open>partial_ratio\<close>, any function of the two strings.
\<close>

datatype bucket = SkillList "string list" | SkillDict "(string \<times> nat) list"

definition MY_SKILLS :: "(string \<times> bucket) list" where
  "MY_SKILLS =
     [(''languages'', SkillList [''python'', ''typescript'', ''go'']),
      (''ml'', SkillList [''nlp'', ''transformers'', ''langchain'', ''retrieval'', ''llmops'']),
      (''tools'', SkillList [''postgres'', ''docker'', ''kubernetes'', ''playwright'', ''aws'', ''gcp'']),
      (''years_exp'', SkillDict [(''python'', 5), (''typescript'', 3)])]"

definition BUCKET_WEIGHTS :: "(real \<Rightarrow> real) \<Rightarrow> (string \<times> real) list" where
  "BUCKET_WEIGHTS fl =
     [(''languages'', fl 1),
      (''ml'', fl (12 / 10)),
      (''tools'', fl (9 / 10)),
      (''years_exp'', fl (11 / 10))]"

definition FUZZY_THRESHOLD :: real where
  "FUZZY_THRESHOLD = 85"

definition float_rounding :: "(real \<Rightarrow> real) \<Rightarrow> bool" where
  "float_rounding fl =
     ((\<forall>x y. x \<le> y \<longrightarrow> fl x \<le> fl y) \<and> (\<forall>x. fl (fl x) = fl x)
      \<and> fl 0 = 0 \<and> fl 1 = 1 \<and> fl 100 = 100)"

definition normalize_text :: "string \<Rightarrow> string" where
  "normalize_text s = lower s"

definition exact_or_fuzzy_hit :: "(string \<Rightarrow> string \<Rightarrow> real) \<Rightarrow> string \<Rightarrow> string \<Rightarrow> bool" where
  "exact_or_fuzzy_hit partial_ratio skill text =
     (if skill = [] then False
      else if contains skill text then True
      else partial_ratio skill text \<ge> FUZZY_THRESHOLD)"

text \<open>
  The two inner loops of \<open>skill_score\<close> have the same body; \<open>score_skills\<close> is that
  loop over the skill names of one bucket, on the pair
  \<open>(weighted_hits, weighted_total)\<close>, and \<open>score_buckets\<close> the outer loop.
\<close>

fun score_skills ::
  "(real \<Rightarrow> real) \<Rightarrow> (string \<Rightarrow> string \<Rightarrow> real) \<Rightarrow> string \<Rightarrow> real \<Rightarrow> string list
     \<Rightarrow> real \<times> real \<Rightarrow> real \<times> real" where
  "score_skills fl partial_ratio text weight [] acc = acc"
| "score_skills fl partial_ratio text weight (skill_name # rest) (weighted_hits, weighted_total) =
     score_skills fl partial_ratio text weight rest
       (if exact_or_fuzzy_hit partial_ratio (lower skill_name) text
        then fl (weighted_hits + weight) else weighted_hits,
        fl (weighted_total + weight))"

definition bucket_weight :: "(real \<Rightarrow> real) \<Rightarrow> string \<Rightarrow> real" where
  "bucket_weight fl b = (case map_of (BUCKET_WEIGHTS fl) b of Some w \<Rightarrow> w | None \<Rightarrow> fl 1)"

fun skill_names :: "bucket \<Rightarrow> string list" where
  "skill_names (SkillDict d) = map fst d"
| "skill_names (SkillList l) = l"

fun score_buckets ::
  "(real \<Rightarrow> real) \<Rightarrow> (string \<Rightarrow> string \<Rightarrow> real) \<Rightarrow> string \<Rightarrow> (string \<times> bucket) list
     \<Rightarrow> real \<times> real \<Rightarrow> real \<times> real" where
  "score_buckets fl partial_ratio text [] acc = acc"
| "score_buckets fl partial_ratio text ((b, skills) # rest) acc =
     score_buckets fl partial_ratio text rest
       (score_skills fl partial_ratio text (bucket_weight fl b) (skill_names skills) acc)"

text \<open>
  \<open>round(x, 1)\<close> rounds the exact value of the float \<open>x\<close> to one decimal, ties to the
  even digit, and returns the nearest float.
\<close>

definition round_half_even :: "real \<Rightarrow> int" where
  "round_half_even x =
     (let f = \<lfloor>x\<rfloor>; d = x - of_int f
      in if d < 1 / 2 then f else if d > 1 / 2 then f + 1 else if even f then f else f + 1)"

definition round1 :: "(real \<Rightarrow> real) \<Rightarrow> real \<Rightarrow> real" where
  "round1 fl x = fl (of_int (round_half_even (10 * x)) / 10)"

definition skill_score :: "(real \<Rightarrow> real) \<Rightarrow> (string \<Rightarrow> string \<Rightarrow> real) \<Rightarrow> string \<Rightarrow> real" where
  "skill_score fl partial_ratio text0 =
     (let text = normalize_text text0;
          (weighted_hits, weighted_total) = score_buckets fl partial_ratio text MY_SKILLS (0, 0)
      in if weighted_total = 0 then 0
         else round1 fl (fl (100 * fl (weighted_hits / weighted_total))))"

text \<open>
  The invariant of both loops: the two accumulators are floats, and
  \<open>0 \<le> weighted_hits \<le> weighted_total\<close>.
\<close>

definition acc_ok :: "(real \<Rightarrow> real) \<Rightarrow> real \<times> real \<Rightarrow> bool" where
  "acc_ok fl acc =
     (fl (fst acc) = fst acc \<and> fl (snd acc) = snd acc \<and> 0 \<le> fst acc \<and> fst acc \<le> snd acc)"

section \<open>convert\_and\_export.py: wrap\_line\<close>

text \<open>
  \<^verbatim>\<open>
  def wrap_line(line, max_chars=95):
      chunks = []
      while len(line) > max_chars:
          cut = line.rfind(" ", 0, max_chars)
          if cut == -1:
              cut = max_chars
          chunks.append(line[:cut])
          line = line[cut:].lstrip()
      chunks.append(line)
      return chunks
  \<close>
  \<open>cut_at\<close> is the value of \<open>cut\<close> in one iteration (the loop condition makes
  \<open>max_chars\<close> smaller than the length of the line, so \<open>rfind\<close> searches exactly
  the first \<open>max_chars\<close> characters) and \<open>rest_after\<close> the new value of \<open>line\<close>.
  The loop may run forever (it does for \<open>max_chars = 0\<close> on a line without leading
  white space), so it is a partial function, \<open>None\<close> meaning that it does not return.
  \<open>max_chars\<close> is a natural number: negative values are outside the model.
\<close>

definition cut_at :: "nat \<Rightarrow> string \<Rightarrow> nat" where
  "cut_at max_chars line =
     (case rfind CHR '' '' (take max_chars line) of
        None \<Rightarrow> max_chars
      | Some i \<Rightarrow> i)"

definition rest_after :: "nat \<Rightarrow> string \<Rightarrow> string" where
  "rest_after max_chars line = lstrip (drop (cut_at max_chars line) line)"

partial_function (option) wrap_loop :: "nat \<Rightarrow> string list \<Rightarrow> string \<Rightarrow> string list option" where
  "wrap_loop max_chars chunks line =
     (if length line > max_chars
      then wrap_loop max_chars (chunks @ [take (cut_at max_chars line) line])
             (rest_after max_chars line)
      else Some (chunks @ [line]))"

declare wrap_loop.simps [code]

definition wrap_line :: "nat \<Rightarrow> string \<Rightarrow> string list option" where
  "wrap_line max_chars line = wrap_loop max_chars [] line"

section \<open>Exceptions\<close>

text \<open>
  The exceptions that the modelled code raises or receives from its libraries. A function
  that can raise returns \<open>exn + 'a\<close>, with \<open>Inl\<close> for the exception.
\<close>

datatype exn =
    IntegrityError string
  | OperationalError string
  | KeyError string
  | HTTPError string
  | JSONDecodeError string
  | FileNotFoundError string
  | RuntimeError string
  | ValueError string
  | OSError string
  | AttributeError string
  | PlaywrightError string
  | ProgrammingError string

section \<open>The relational store\<close>

text \<open>
  A column of type TEXT holds a string or NULL (\<open>None\<close>). The repository creates the
  table \<open>jobs\<close> in two places and alters it in a third, so a \<open>jobs\<close> table has one
  of three schemas:
  \<^item> \<open>FetchSchema\<close>: \<open>fetch_jobs.ensure_schema\<close>, eight columns, \<open>id TEXT PRIMARY KEY\<close>
    and no other constraint;
  \<^item> \<open>FetchSchemaScored\<close>: the same after \<open>ALTER TABLE jobs ADD COLUMN score REAL\<close>
    of \<open>score_jobs.ensure_score_column\<close>;
  \<^item> \<open>CliSchema\<close>: \<open>cli.SCHEMA\<close>, ten columns, \<open>source TEXT NOT NULL\<close>,
    \<open>url TEXT UNIQUE\<close>, \<open>score REAL DEFAULT 0\<close>, \<open>status TEXT DEFAULT 'new'\<close>.

  A row has a field for each of the ten columns; the fields of a column that the schema
  lacks stay NULL. The rows are a list, in insertion order. As in SQLite, the primary
  key of a table with rowids does not forbid NULL, and NULL conflicts with nothing.
\<close>

datatype jobs_schema = FetchSchema | FetchSchemaScored | CliSchema

fun columns :: "jobs_schema \<Rightarrow> string list" where
  "columns FetchSchema =
     [''id'', ''source'', ''company'', ''title'', ''location'', ''url'', ''posted_at'', ''raw_json'']"
| "columns FetchSchemaScored =
     [''id'', ''source'', ''company'', ''title'', ''location'', ''url'', ''posted_at'', ''raw_json'',
      ''score'']"
| "columns CliSchema =
     [''id'', ''source'', ''company'', ''title'', ''location'', ''url'', ''posted_at'', ''raw_json'',
      ''score'', ''status'']"

fun source_not_null :: "jobs_schema \<Rightarrow> bool" where
  "source_not_null CliSchema = True"
| "source_not_null _ = False"

fun url_unique :: "jobs_schema \<Rightarrow> bool" where
  "url_unique CliSchema = True"
| "url_unique _ = False"

fun score_default :: "jobs_schema \<Rightarrow> real option" where
  "score_default CliSchema = Some 0"
| "score_default _ = None"

fun status_default :: "jobs_schema \<Rightarrow> string option" where
  "status_default CliSchema = Some ''new''"
| "status_default _ = None"

record job_row =
  id_col :: "string option"
  source_col :: "string option"
  company_col :: "string option"
  title_col :: "string option"
  location_col :: "string option"
  url_col :: "string option"
  posted_at_col :: "string option"
  raw_json_col :: "string option"
  score_col :: "real option"
  status_col :: "string option"

record jobs_table =
  schema :: jobs_schema
  rows :: "job_row list"

record app_row =
  job_id_col :: "string option"
  applied_at_col :: "string option"
  resume_path_col :: "string option"
  cover_path_col :: "string option"
  notes_col :: "string option"

record db =
  jobs :: "jobs_table option"
  applications :: "app_row list option"

definition empty_db :: db where
  "empty_db = \<lparr>jobs = None, applications = None\<rparr>"

subsection \<open>Schema creation\<close>

text \<open>
  \<open>CREATE TABLE IF NOT EXISTS\<close> does nothing when a table of that name exists,
  whatever its columns are.
\<close>

definition create_jobs_if_not_exists :: "jobs_schema \<Rightarrow> db \<Rightarrow> db" where
  "create_jobs_if_not_exists s d =
     (case jobs d of
        None \<Rightarrow> d\<lparr>jobs := Some \<lparr>schema = s, rows = []\<rparr>\<rparr>
      | Some t \<Rightarrow> d)"

definition create_applications_if_not_exists :: "db \<Rightarrow> db" where
  "create_applications_if_not_exists d =
     (case applications d of
        None \<Rightarrow> d\<lparr>applications := Some []\<rparr>
      | Some a \<Rightarrow> d)"

definition ensure_schema :: "db \<Rightarrow> exn + db" where
  "ensure_schema d = Inr (create_jobs_if_not_exists FetchSchema d)"

definition ensure_db :: "db \<Rightarrow> exn + db" where
  "ensure_db d = Inr (create_applications_if_not_exists (create_jobs_if_not_exists CliSchema d))"

text \<open>
  \<open>PRAGMA table_info(jobs)\<close> returns one record for each column, and none when the
  table does not exist; \<open>ALTER TABLE\<close> on a table that does not exist raises.
\<close>

definition table_info :: "db \<Rightarrow> string list" where
  "table_info d = (case jobs d of None \<Rightarrow> [] | Some t \<Rightarrow> columns (schema t))"

definition add_score_column :: "db \<Rightarrow> exn + db" where
  "add_score_column d =
     (case jobs d of
        None \<Rightarrow> Inl (OperationalError ''no such table: jobs'')
      | Some t \<Rightarrow>
          (case schema t of
             FetchSchema \<Rightarrow> Inr (d\<lparr>jobs := Some (t\<lparr>schema := FetchSchemaScored\<rparr>)\<rparr>)
           | _ \<Rightarrow> Inl (OperationalError ''duplicate column name: score'')))"

definition ensure_score_column :: "db \<Rightarrow> exn + db" where
  "ensure_score_column d =
     (let cols = set (table_info d)
      in if ''score'' \<notin> cols then add_score_column d else Inr d)"

subsection \<open>fetch\_jobs.py: upsert\<close>

text \<open>
  The dictionary that \<open>upsert\<close> receives has the eight keys that the statement names;
  both normalizers build it so. Its values are not checked: those that come from the
  job board are whatever the JSON held. A value is
  \<^item> \<open>Null\<close>: Python's \<open>None\<close>;
  \<^item> \<open>Text s\<close>: a string, or a number, given as the text that a column of type TEXT
    stores for it;
  \<^item> \<open>Unsupported ty\<close>: a value of a type \<open>ty\<close> that \<open>sqlite3\<close> cannot bind to a
    parameter, such as a list or a dictionary.

  Binding an unsupported value raises \<open>sqlite3.ProgrammingError\<close> (the text of the
  message depends on the version of Python; the model keeps the name of the parameter and
  of the type). The parameters are bound in the order of the statement, and the first
  one that cannot be bound raises.
\<close>

datatype param = Null | Text string | Unsupported string

record posting =
  p_id :: param
  p_source :: param
  p_company :: param
  p_title :: param
  p_location :: param
  p_url :: param
  p_posted_at :: param
  p_raw_json :: param

fun bind_param :: "string \<Rightarrow> param \<Rightarrow> exn + string option" where
  "bind_param name Null = Inr None"
| "bind_param name (Text s) = Inr (Some s)"
| "bind_param name (Unsupported ty) =
     Inl (ProgrammingError (''Error binding parameter :'' @ name @ '': type '' @ ty @ '' is not supported''))"

text \<open>\<open>and_then x f\<close>: the statement \<open>f\<close> follows \<open>x\<close> unless \<open>x\<close> raises.\<close>

definition and_then :: "exn + 'a \<Rightarrow> ('a \<Rightarrow> exn + 'b) \<Rightarrow> exn + 'b" where
  "and_then x f = (case x of Inl e \<Rightarrow> Inl e | Inr v \<Rightarrow> f v)"

text \<open>The values bound to the eight parameters of the statement.\<close>

record bindings =
  b_id :: "string option"
  b_source :: "string option"
  b_company :: "string option"
  b_title :: "string option"
  b_location :: "string option"
  b_url :: "string option"
  b_posted_at :: "string option"
  b_raw_json :: "string option"

definition bind_params :: "posting \<Rightarrow> exn + bindings" where
  "bind_params p =
     and_then (bind_param ''id'' (p_id p)) (\<lambda>i.
     and_then (bind_param ''source'' (p_source p)) (\<lambda>so.
     and_then (bind_param ''company'' (p_company p)) (\<lambda>c.
     and_then (bind_param ''title'' (p_title p)) (\<lambda>t.
     and_then (bind_param ''location'' (p_location p)) (\<lambda>l.
     and_then (bind_param ''url'' (p_url p)) (\<lambda>u.
     and_then (bind_param ''posted_at'' (p_posted_at p)) (\<lambda>pa.
     and_then (bind_param ''raw_json'' (p_raw_json p)) (\<lambda>rj.
       Inr \<lparr>b_id = i, b_source = so, b_company = c, b_title = t, b_location = l,
            b_url = u, b_posted_at = pa, b_raw_json = rj\<rparr>))))))))"

definition insert_row :: "jobs_schema \<Rightarrow> bindings \<Rightarrow> job_row" where
  "insert_row s v =
     \<lparr>id_col = b_id v, source_col = b_source v, company_col = b_company v,
      title_col = b_title v, location_col = b_location v, url_col = b_url v,
      posted_at_col = b_posted_at v, raw_json_col = b_raw_json v,
      score_col = score_default s, status_col = status_default s\<rparr>"

definition update_row :: "bindings \<Rightarrow> job_row \<Rightarrow> job_row" where
  "update_row v r =
     r\<lparr>source_col := b_source v, company_col := b_company v, title_col := b_title v,
       location_col := b_location v, url_col := b_url v, posted_at_col := b_posted_at v,
       raw_json_col := b_raw_json v\<rparr>"

text \<open>
  \<open>url_conflict rs own u\<close>: a row other than the one with the id \<open>own\<close> holds the
  url \<open>u\<close>. A NULL url conflicts with nothing, and a NULL id owns no row.
\<close>

definition url_conflict :: "job_row list \<Rightarrow> string option \<Rightarrow> string option \<Rightarrow> bool" where
  "url_conflict rs own u =
     (case u of
        None \<Rightarrow> False
      | Some v \<Rightarrow> list_ex (\<lambda>r. url_col r = Some v \<and> (own = None \<or> id_col r \<noteq> own)) rs)"

definition has_id :: "job_row list \<Rightarrow> string option \<Rightarrow> bool" where
  "has_id rs i = (i \<noteq> None \<and> list_ex (\<lambda>r. id_col r = i) rs)"

text \<open>
  \<open>INSERT INTO jobs (...) VALUES (...) ON CONFLICT(id) DO UPDATE SET ...\<close> on a table,
  with the values bound: the NOT NULL and UNIQUE constraints that the conflict clause
  does not name abort the statement and leave the table as it was; a conflict on \<open>id\<close>
  updates the seven columns of the row that has the id; otherwise the row is added, the
  columns that the statement does not name taking their defaults.
\<close>

definition insert_on_conflict_update :: "jobs_table \<Rightarrow> bindings \<Rightarrow> exn + jobs_table" where
  "insert_on_conflict_update t v =
     (if source_not_null (schema t) \<and> b_source v = None
      then Inl (IntegrityError ''NOT NULL constraint failed: jobs.source'')
      else if url_unique (schema t) \<and> url_conflict (rows t) (b_id v) (b_url v)
      then Inl (IntegrityError ''UNIQUE constraint failed: jobs.url'')
      else if has_id (rows t) (b_id v)
      then Inr (t\<lparr>rows := map (\<lambda>r. if id_col r = b_id v then update_row v r else r) (rows t)\<rparr>)
      else Inr (t\<lparr>rows := rows t @ [insert_row (schema t) v]\<rparr>))"

text \<open>
  \<open>conn.execute(sql, row)\<close>: the statement is compiled, which raises when the table
  does not exist, then the values of the dictionary are bound, then the statement runs.
\<close>

definition upsert :: "db \<Rightarrow> posting \<Rightarrow> exn + db" where
  "upsert d p =
     (case jobs d of
        None \<Rightarrow> Inl (OperationalError ''no such table: jobs'')
      | Some t \<Rightarrow>
          (case bind_params p of
             Inl e \<Rightarrow> Inl e
           | Inr v \<Rightarrow>
               (case insert_on_conflict_update t v of
                  Inl e \<Rightarrow> Inl e
                | Inr t' \<Rightarrow> Inr (d\<lparr>jobs := Some t'\<rparr>))))"

text \<open>
  A sequence of \<open>upsert\<close> calls, each one on the database that the calls before it
  left: a call that raises leaves the database as it was.
\<close>

fun upsert_calls :: "db \<Rightarrow> posting list \<Rightarrow> db" where
  "upsert_calls d [] = d"
| "upsert_calls d (p # ps) =
     upsert_calls (case upsert d p of Inl e \<Rightarrow> d | Inr d' \<Rightarrow> d') ps"

definition jobs_rows :: "db \<Rightarrow> job_row list" where
  "jobs_rows d = (case jobs d of None \<Rightarrow> [] | Some t \<Rightarrow> rows t)"


subsection \<open>Example data\<close>

text \<open>
  Concrete databases and postings on which the definitions are evaluated: the database
  that \<open>ensure_schema\<close> creates from nothing, the one that \<open>ensure_db\<close> creates, and
  the latter with two jobs.
\<close>

definition example_posting :: "string \<Rightarrow> string \<Rightarrow> posting" where
  "example_posting i u =
     \<lparr>p_id = Text i, p_source = Text ''greenhouse'', p_company = Text ''stripe'',
      p_title = Text ''Engineer'', p_location = Null, p_url = Text u,
      p_posted_at = Null, p_raw_json = Text ''{}''\<rparr>"

definition fetch_db :: db where
  "fetch_db = \<lparr>jobs = Some \<lparr>schema = FetchSchema, rows = []\<rparr>, applications = None\<rparr>"

definition cli_db :: db where
  "cli_db = \<lparr>jobs = Some \<lparr>schema = CliSchema, rows = []\<rparr>, applications = Some []\<rparr>"

definition example_row :: "string \<Rightarrow> string \<Rightarrow> job_row" where
  "example_row i u =
     \<lparr>id_col = Some i, source_col = Some ''greenhouse'', company_col = Some ''stripe'',
      title_col = Some ''Engineer'', location_col = None, url_col = Some u,
      posted_at_col = None, raw_json_col = Some ''{}'',
      score_col = Some 0, status_col = Some ''new''\<rparr>"

definition two_jobs_db :: db where
  "two_jobs_db =
     \<lparr>jobs = Some \<lparr>schema = CliSchema, rows = [example_row ''a'' ''u1'', example_row ''b'' ''u2'']\<rparr>,
      applications = Some []\<rparr>"




section \<open>apply\_assist.py: \_pick\_valid\_upload\<close>

text \<open>
  The operating system as the function sees it: the environment variables
  (\<open>os.getenv\<close>), which paths exist (\<open>Path(p).exists()\<close>, true of a directory as
  of a regular file), the suffix that pathlib reads off a path (\<open>Path(p).suffix\<close>) and
  the absolute form of a path (\<open>os.path.abspath\<close>). The last two depend on the
  platform's path syntax and are parameters with the rest. \<open>os.path.abspath\<close> works on
  the text of the path alone: it removes \<open>..\<close> together with the component before it
  and does not look at the file system, so the absolute form of a path that crosses a
  symbolic link can name another file, or none. \<open>path_is_file\<close> (\<open>Path(p).is_file()\<close>)
  tells the regular files from the directories; the code never asks for it.
\<close>

record os_world =
  getenv :: "string \<Rightarrow> string option"
  path_exists :: "string \<Rightarrow> bool"
  path_is_file :: "string \<Rightarrow> bool"
  path_suffix :: "string \<Rightarrow> string"
  abspath :: "string \<Rightarrow> string"

definition ALLOWED_UPLOAD_EXTS :: "string set" where
  "ALLOWED_UPLOAD_EXTS = {''.pdf'', ''.doc'', ''.docx'', ''.rtf''}"

text \<open>
  \<^verbatim>\<open>
  def ok(path):
      return bool(path) and Path(path).exists() and Path(path).suffix.lower() in ALLOWED_UPLOAD_EXTS
  \<close>
  \<open>bool(path)\<close> is false for \<open>None\<close> and for the empty string.
\<close>

definition ok :: "os_world \<Rightarrow> string option \<Rightarrow> bool" where
  "ok w path =
     (case path of
        None \<Rightarrow> False
      | Some p \<Rightarrow> p \<noteq> [] \<and> path_exists w p \<and> lower (path_suffix w p) \<in> ALLOWED_UPLOAD_EXTS)"





section \<open>fetch\_jobs.py: the fetchers\<close>

text \<open>
  A function of the source that changes the database or prints takes the state of the
  run and returns the outcome (the exception it raises, or its value) together with the
  state it leaves: what was stored or printed before an exception stays.
  \<open>for_each f xs\<close> is a \<open>for\<close> loop whose body \<open>f\<close> may raise.
\<close>

record run_state =
  database :: db
  console :: "string list"

fun for_each :: "('a \<Rightarrow> 's \<Rightarrow> (exn + unit) \<times> 's) \<Rightarrow> 'a list \<Rightarrow> 's \<Rightarrow> (exn + unit) \<times> 's" where
  "for_each f [] s = (Inr (), s)"
| "for_each f (x # xs) s =
     (case f x s of
        (Inl e, s') \<Rightarrow> (Inl e, s')
      | (Inr u, s') \<Rightarrow> for_each f xs s')"

text \<open>\<open>str(e)\<close> for an exception \<open>e\<close>.\<close>

fun str_exn :: "exn \<Rightarrow> string" where
  "str_exn (IntegrityError m) = m"
| "str_exn (OperationalError m) = m"
| "str_exn (KeyError k) = [CHR 0x27] @ k @ [CHR 0x27]"
| "str_exn (HTTPError m) = m"
| "str_exn (JSONDecodeError m) = m"
| "str_exn (FileNotFoundError m) = m"
| "str_exn (RuntimeError m) = m"
| "str_exn (ValueError m) = m"
| "str_exn (OSError m) = m"
| "str_exn (AttributeError m) = m"
| "str_exn (PlaywrightError m) = m"
| "str_exn (ProgrammingError m) = m"

subsection \<open>The job boards and the clock\<close>

text \<open>
  A posting as a job board returns it, decoded from JSON, with the keys that the
  normalizers read. The values that a normalizer passes on as they are (title, location
  name and url) are any JSON value; the others are strings, or \<open>None\<close> when the key is
  absent or null; \<open>createdAt\<close> of Lever is a number; the id is given as \<open>str\<close> formats
  it;
  \<open>gj_location_name\<close> is \<open>(job.get("location") or {}).get("name")\<close>;
  \<open>lj_categories\<close> is \<open>job.get("categories") or {}\<close>, in the order of the
  dictionary; the last field is \<open>json.dumps(job, ensure_ascii=False)\<close>.
\<close>

record gh_job =
  gj_id :: "string option"
  gj_title :: param
  gj_location_name :: param
  gj_absolute_url :: param
  gj_updated_at :: "string option"
  gj_created_at :: "string option"
  gj_dumps :: string

record lever_job =
  lj_id :: "string option"
  lj_text :: param
  lj_categories :: "(string \<times> string) list"
  lj_hostedUrl :: param
  lj_createdAt :: "real option"
  lj_dumps :: string

text \<open>
  A response: \<open>status_error\<close> is what \<open>r.raise_for_status()\<close> raises, if anything,
  and \<open>json_jobs\<close> the outcome of decoding the body and reading the list of postings
  from it (\<open>r.json()\<close> with \<open>data.get("jobs", [])\<close> for Greenhouse and
  \<open>r.json() or []\<close> for Lever), which raises when the body is not JSON of that shape.
  \<open>client.get(url)\<close> raises or returns a response.
\<close>

record 'j response =
  status_error :: "exn option"
  json_jobs :: "exn + 'j list"

record network =
  get_greenhouse :: "string \<Rightarrow> exn + gh_job response"
  get_lever :: "string \<Rightarrow> exn + lever_job response"

text \<open>
  The date functions of the standard library that \<open>to_iso_utc\<close> calls:
  \<open>parse_iso s\<close> is the result of
  \<open>datetime.fromisoformat(s.replace("Z", "+00:00")).astimezone(timezone.utc).isoformat().replace("+00:00", "Z")\<close>,
  \<open>parse_float s\<close> that of \<open>float(s)\<close>, both \<open>None\<close> when they raise, and
  \<open>iso_of_epoch x\<close> is
  \<open>datetime.fromtimestamp(x, tz=timezone.utc).isoformat().replace("+00:00", "Z")\<close>, which
  raises on a number out of range.
\<close>

record clock =
  parse_iso :: "string \<Rightarrow> string option"
  parse_float :: "string \<Rightarrow> real option"
  iso_of_epoch :: "real \<Rightarrow> exn + string"

subsection \<open>Helpers and normalizers\<close>

definition gh_boards :: "string \<Rightarrow> string" where
  "gh_boards org = ''https://boards-api.greenhouse.io/v1/boards/'' @ org @ ''/jobs''"

definition lever_posting_urls :: "string \<Rightarrow> string list" where
  "lever_posting_urls org =
     [''https://api.lever.co/v0/postings/'' @ org @ ''?mode=json'',
      ''https://api.eu.lever.co/v0/postings/'' @ org @ ''?mode=json'']"

definition strip :: "string \<Rightarrow> string" where
  "strip s = rev (lstrip (rev (lstrip s)))"

text \<open>\<open>to_iso_utc\<close> on a string or \<open>None\<close>, and on a number or \<open>None\<close>.\<close>

definition to_iso_utc_str :: "clock \<Rightarrow> string option \<Rightarrow> string option" where
  "to_iso_utc_str ck val =
     (case val of
        None \<Rightarrow> None
      | Some v \<Rightarrow>
          (let s = strip v
           in case parse_iso ck s of
                Some d \<Rightarrow> Some d
              | None \<Rightarrow>
                  (case parse_float ck s of
                     None \<Rightarrow> Some s
                   | Some num \<Rightarrow>
                       (case iso_of_epoch ck (if num > 10000000000 then num / 1000 else num) of
                          Inl e \<Rightarrow> Some s
                        | Inr d \<Rightarrow> Some d))))"

definition to_iso_utc_num :: "clock \<Rightarrow> real option \<Rightarrow> exn + string option" where
  "to_iso_utc_num ck val =
     (case val of
        None \<Rightarrow> Inr None
      | Some x \<Rightarrow> (case iso_of_epoch ck x of Inl e \<Rightarrow> Inl e | Inr d \<Rightarrow> Inr (Some d)))"

text \<open>Python's \<open>a or b\<close> on strings that may be \<open>None\<close>.\<close>

definition py_or :: "string option \<Rightarrow> string option \<Rightarrow> string option" where
  "py_or a b = (case a of None \<Rightarrow> b | Some s \<Rightarrow> if s = [] then b else a)"

text \<open>A string or \<open>None\<close> as a value of the dictionary.\<close>

definition param_of :: "string option \<Rightarrow> param" where
  "param_of x = (case x of None \<Rightarrow> Null | Some s \<Rightarrow> Text s)"

definition normalize_gh :: "clock \<Rightarrow> gh_job \<Rightarrow> string \<Rightarrow> exn + posting" where
  "normalize_gh ck job org =
     (case gj_id job of
        None \<Rightarrow> Inl (KeyError ''id'')
      | Some i \<Rightarrow>
          Inr \<lparr>p_id = Text (''greenhouse:'' @ org @ '':'' @ i),
               p_source = Text ''greenhouse'',
               p_company = Text org,
               p_title = gj_title job,
               p_location = gj_location_name job,
               p_url = gj_absolute_url job,
               p_posted_at = param_of (to_iso_utc_str ck (py_or (gj_updated_at job) (gj_created_at job))),
               p_raw_json = Text (gj_dumps job)\<rparr>)"

fun join :: "string \<Rightarrow> string list \<Rightarrow> string" where
  "join sep [] = []"
| "join sep [x] = x"
| "join sep (x # y # ys) = x @ sep @ join sep (y # ys)"

definition normalize_lever :: "clock \<Rightarrow> lever_job \<Rightarrow> string \<Rightarrow> exn + posting" where
  "normalize_lever ck job org =
     (let cats = lj_categories job;
          location = py_or (py_or (map_of cats ''location'')
                        (Some (join '', '' (filter (\<lambda>v. v \<noteq> []) (map snd cats))))) None;
          created = (case lj_createdAt job of
                       None \<Rightarrow> None
                     | Some c \<Rightarrow> if c > 10000000000 then Some (c / 1000) else Some c)
      in case lj_id job of
           None \<Rightarrow> Inl (KeyError ''id'')
         | Some i \<Rightarrow>
             (case to_iso_utc_num ck created of
                Inl e \<Rightarrow> Inl e
              | Inr posted \<Rightarrow>
                  Inr \<lparr>p_id = Text (''lever:'' @ org @ '':'' @ i),
                       p_source = Text ''lever'',
                       p_company = Text org,
                       p_title = lj_text job,
                       p_location = param_of location,
                       p_url = lj_hostedUrl job,
                       p_posted_at = param_of posted,
                       p_raw_json = Text (lj_dumps job)\<rparr>))"

subsection \<open>Fetchers\<close>

text \<open>\<open>store normalizer j\<close> is the loop body \<open>upsert(conn, normalize(j, org))\<close>.\<close>

definition store :: "('j \<Rightarrow> exn + posting) \<Rightarrow> 'j \<Rightarrow> run_state \<Rightarrow> (exn + unit) \<times> run_state" where
  "store normalizer j st =
     (case normalizer j of
        Inl e \<Rightarrow> (Inl e, st)
      | Inr p \<Rightarrow>
          (case upsert (database st) p of
             Inl e \<Rightarrow> (Inl e, st)
           | Inr d \<Rightarrow> (Inr (), st\<lparr>database := d\<rparr>)))"

text \<open>
  The statements inside \<open>try\<close>, the same in both fetchers: request, status check,
  decoding, and the loop that stores the postings.
\<close>

definition fetch_body ::
  "(exn + 'j response) \<Rightarrow> ('j \<Rightarrow> exn + posting) \<Rightarrow> run_state \<Rightarrow> (exn + unit) \<times> run_state" where
  "fetch_body got normalizer st =
     (case got of
        Inl e \<Rightarrow> (Inl e, st)
      | Inr r \<Rightarrow>
          (case status_error r of
             Some e \<Rightarrow> (Inl e, st)
           | None \<Rightarrow>
               (case json_jobs r of
                  Inl e \<Rightarrow> (Inl e, st)
                | Inr js \<Rightarrow> for_each (store normalizer) js st)))"

definition print :: "string \<Rightarrow> run_state \<Rightarrow> run_state" where
  "print line st = st\<lparr>console := console st @ [line]\<rparr>"

definition fetch_greenhouse :: "network \<Rightarrow> clock \<Rightarrow> string \<Rightarrow> run_state \<Rightarrow> (exn + unit) \<times> run_state" where
  "fetch_greenhouse net ck org st =
     (case fetch_body (get_greenhouse net (gh_boards org)) (\<lambda>j. normalize_gh ck j org) st of
        (Inr u, st') \<Rightarrow> (Inr (), st')
      | (Inl e, st') \<Rightarrow> (Inr (), print (''[greenhouse] '' @ org @ '': '' @ str_exn e) st'))"

text \<open>
  The loop of \<open>fetch_lever\<close> over the endpoints, with the variable \<open>last_err\<close>: a
  pass without exception returns from the function, a pass that raises goes on to the
  next endpoint; after the loop the last exception is printed.
\<close>

fun lever_loop ::
  "network \<Rightarrow> clock \<Rightarrow> string \<Rightarrow> string list \<Rightarrow> exn option \<Rightarrow> run_state
     \<Rightarrow> (exn + unit) \<times> run_state" where
  "lever_loop net ck org [] last_err st =
     (case last_err of
        Some e \<Rightarrow> (Inr (), print (''[lever] '' @ org @ '': '' @ str_exn e) st)
      | None \<Rightarrow> (Inr (), st))"
| "lever_loop net ck org (url # urls) last_err st =
     (case fetch_body (get_lever net url) (\<lambda>j. normalize_lever ck j org) st of
        (Inr u, st') \<Rightarrow> (Inr (), st')
      | (Inl e, st') \<Rightarrow> lever_loop net ck org urls (Some e) st')"

definition fetch_lever :: "network \<Rightarrow> clock \<Rightarrow> string \<Rightarrow> run_state \<Rightarrow> (exn + unit) \<times> run_state" where
  "fetch_lever net ck org st = lever_loop net ck org (lever_posting_urls org) None st"

text \<open>
  \<open>fetch_and_store\<close> after the connection is open: the schema, the loop over the
  Greenhouse organizations, the loop over the Lever organizations.
\<close>

definition fetch_and_store ::
  "network \<Rightarrow> clock \<Rightarrow> string list \<Rightarrow> string list \<Rightarrow> run_state \<Rightarrow> (exn + unit) \<times> run_state" where
  "fetch_and_store net ck orgs_gh orgs_lever st =
     (case ensure_schema (database st) of
        Inl e \<Rightarrow> (Inl e, st)
      | Inr d \<Rightarrow>
          (case for_each (fetch_greenhouse net ck) orgs_gh (st\<lparr>database := d\<rparr>) of
             (Inl e, st') \<Rightarrow> (Inl e, st')
           | (Inr u, st') \<Rightarrow> for_each (fetch_lever net ck) orgs_lever st'))"

text \<open>The two passes of the loop of \<open>fetch_lever\<close>.\<close>

definition lever_pass :: "network \<Rightarrow> clock \<Rightarrow> string \<Rightarrow> nat \<Rightarrow> run_state \<Rightarrow> (exn + unit) \<times> run_state" where
  "lever_pass net ck org k st =
     fetch_body (get_lever net (lever_posting_urls org ! k)) (\<lambda>j. normalize_lever ck j org) st"

subsection \<open>Example network\<close>

text \<open>
  A network on which the first Lever endpoint returns one posting without the key
  \<open>id\<close> and the second endpoint returns the empty list, and on which the Greenhouse
  board of \<open>stripe\<close> answers with an error status and every other board with a
  posting; a clock that parses nothing.
\<close>

definition example_lever_job :: lever_job where
  "example_lever_job =
     \<lparr>lj_id = None, lj_text = Text ''Engineer'', lj_categories = [(''team'', ''Data'')],
      lj_hostedUrl = Text ''https://jobs.lever.co/acme/1'', lj_createdAt = None,
      lj_dumps = ''{}''\<rparr>"

definition example_gh_job :: gh_job where
  "example_gh_job =
     \<lparr>gj_id = Some ''7'', gj_title = Text ''Engineer'', gj_location_name = Null,
      gj_absolute_url = Text ''https://boards.greenhouse.io/notion/jobs/7'',
      gj_updated_at = None, gj_created_at = None, gj_dumps = ''{}''\<rparr>"

definition example_network :: network where
  "example_network =
     \<lparr>get_greenhouse = (\<lambda>url.
        if url = gh_boards ''stripe''
        then Inr \<lparr>status_error = Some (HTTPError ''503 Service Unavailable''), json_jobs = Inr []\<rparr>
        else Inr \<lparr>status_error = None, json_jobs = Inr [example_gh_job]\<rparr>),
      get_lever = (\<lambda>url.
        if url = ''https://api.lever.co/v0/postings/acme?mode=json''
        then Inr \<lparr>status_error = None, json_jobs = Inr [example_lever_job]\<rparr>
        else Inr \<lparr>status_error = None, json_jobs = Inr []\<rparr>)\<rparr>"

definition example_clock :: clock where
  "example_clock =
     \<lparr>parse_iso = (\<lambda>s. None), parse_float = (\<lambda>s. None),
      iso_of_epoch = (\<lambda>x. Inl (ValueError ''year out of range''))\<rparr>"

definition example_state :: run_state where
  "example_state = \<lparr>database = cli_db, console = []\<rparr>"

section \<open>The lookups that abort a command\<close>

subsection \<open>writer.py: get\_job\<close>


subsection \<open>cli.py: \_resolve\_md\_paths\<close>





subsection \<open>convert\_and\_export.py: ensure\_pdf\_from\_md\<close>












subsection \<open>Example renderers\<close>






section \<open>apply\_assist.py: the form-filling heuristics\<close>

subsection \<open>The browser\<close>

text \<open>
  The form is a page of a third party, reached through the Playwright calls below. The
  page is a state of any type \<open>'s\<close>, and each call is a parameter: a call that reads
  returns a value or raises, a call that acts returns the page it leaves and may raise.
  \<^item> \<open>count_first sel\<close>: \<open>await scope.locator(sel).first.count()\<close>
  \<^item> \<open>set_input_files_first sel path\<close>: \<open>await scope.locator(sel).first.set_input_files(path)\<close>
  \<^item> \<open>click_button cue\<close>: \<open>await scope.get_by_role("button", name=re.compile(cue, re.I)).first.click()\<close>
  \<^item> \<open>click_text cue\<close>: \<open>await scope.get_by_text(re.compile(cue, re.I)).first.click()\<close>
  \<^item> \<open>count_all sel\<close>: \<open>await scope.locator(sel).count()\<close>
  \<^item> \<open>get_attribute_nth sel i a\<close>: \<open>await scope.locator(sel).nth(i).get_attribute(a)\<close>
  \<^item> \<open>set_input_files_nth sel i path\<close>: \<open>await scope.locator(sel).nth(i).set_input_files(path)\<close>
  \<^item> \<open>fill_by_label pat v\<close>: \<open>await scope.get_by_label(re.compile(pat, re.I)).first.fill(v)\<close>
  \<^item> \<open>fill_first sel v\<close>: \<open>await scope.locator(sel).first.fill(v)\<close>
  \<^item> \<open>input_value_nth sel i\<close>: \<open>await scope.locator(sel).nth(i).input_value()\<close>
  \<^item> \<open>fill_nth sel i v\<close>: \<open>await scope.locator(sel).nth(i).fill(v)\<close>
\<close>

record 's playwright =
  count_first :: "string \<Rightarrow> 's \<Rightarrow> exn + nat"
  set_input_files_first :: "string \<Rightarrow> string \<Rightarrow> 's \<Rightarrow> (exn + unit) \<times> 's"
  click_button :: "string \<Rightarrow> 's \<Rightarrow> (exn + unit) \<times> 's"
  click_text :: "string \<Rightarrow> 's \<Rightarrow> (exn + unit) \<times> 's"
  count_all :: "string \<Rightarrow> 's \<Rightarrow> exn + nat"
  get_attribute_nth :: "string \<Rightarrow> nat \<Rightarrow> string \<Rightarrow> 's \<Rightarrow> exn + string option"
  set_input_files_nth :: "string \<Rightarrow> nat \<Rightarrow> string \<Rightarrow> 's \<Rightarrow> (exn + unit) \<times> 's"
  fill_by_label :: "string \<Rightarrow> string \<Rightarrow> 's \<Rightarrow> (exn + unit) \<times> 's"
  fill_first :: "string \<Rightarrow> string \<Rightarrow> 's \<Rightarrow> (exn + unit) \<times> 's"
  input_value_nth :: "string \<Rightarrow> nat \<Rightarrow> 's \<Rightarrow> exn + string"
  fill_nth :: "string \<Rightarrow> nat \<Rightarrow> string \<Rightarrow> 's \<Rightarrow> (exn + unit) \<times> 's"

subsection \<open>Uploads\<close>

text \<open>
  What the upload routine does to the page is recorded as a trace of events, one for
  each attempt: a known selector tried for a kind of document (\<open>True\<close> when the file
  was set), a cue for which buttons were clicked, the scan with the inputs it found, an
  upload to the input picked by its attributes, an upload to an input picked by its
  position. The \<open>print\<close> calls of the routine are not modelled.
\<close>

datatype kind = Resume | Cover

record file_info =
  idx :: nat
  name :: string
  fid :: string
  accept :: string

datatype event =
    TryKnown kind string bool
  | ClickCue string
  | Scan "file_info list"
  | TryAttr kind nat bool
  | TryPositional kind nat bool

record ('s, 'e) session =
  page :: 's
  trace :: "'e list"

definition emit :: "'e \<Rightarrow> ('s, 'e) session \<Rightarrow> ('s, 'e) session" where
  "emit e ss = ss\<lparr>trace := trace ss @ [e]\<rparr>"

text \<open>\<open>q s\<close> is \<open>s\<close> between single quotes, as the selectors of the source have it.\<close>

definition q :: "string \<Rightarrow> string" where
  "q s = [CHR 0x27] @ s @ [CHR 0x27]"

fun FILE_SELECTORS :: "kind \<Rightarrow> string list" where
  "FILE_SELECTORS Resume =
     [''input[type='' @ q ''file'' @ ''][name*='' @ q ''resume'' @ '']'',
      ''input[type='' @ q ''file'' @ ''][name*='' @ q ''cv'' @ '']'',
      ''input#resume'',
      ''input#resume-upload-input'',
      ''input[name='' @ q ''application[resume]'' @ '']'',
      ''[data-qa='' @ q ''resume-uploader'' @ ''] input[type='' @ q ''file'' @ '']'']"
| "FILE_SELECTORS Cover =
     [''input[type='' @ q ''file'' @ ''][name*='' @ q ''cover'' @ '']'',
      ''input[name='' @ q ''application[cover_letter]'' @ '']'',
      ''input#cover'',
      ''[data-qa='' @ q ''coverLetter-uploader'' @ ''] input[type='' @ q ''file'' @ '']'']"

definition BUTTON_CUES :: "string list" where
  "BUTTON_CUES = [''attach'', ''upload'', ''resume'', ''choose file'', ''browse'']"

definition file_input_selector :: string where
  "file_input_selector = ''input[type='' @ q ''file'' @ '']''"

text \<open>
  The loop of \<open>_try_upload_known\<close> over the selectors of a kind: the body is a
  \<open>try\<close> whose handler goes on to the next selector.
\<close>

fun known_loop :: "'s playwright \<Rightarrow> kind \<Rightarrow> string \<Rightarrow> string list \<Rightarrow> ('s, event) session \<Rightarrow> bool \<times> ('s, event) session" where
  "known_loop pw k path [] ss = (False, ss)"
| "known_loop pw k path (sel # sels) ss =
     (case count_first pw sel (page ss) of
        Inl e \<Rightarrow> known_loop pw k path sels (emit (TryKnown k sel False) ss)
      | Inr n \<Rightarrow>
          if n > 0
          then (case set_input_files_first pw sel path (page ss) of
                  (Inl e, p) \<Rightarrow> known_loop pw k path sels (emit (TryKnown k sel False) (ss\<lparr>page := p\<rparr>))
                | (Inr u, p) \<Rightarrow> (True, emit (TryKnown k sel True) (ss\<lparr>page := p\<rparr>)))
          else known_loop pw k path sels (emit (TryKnown k sel False) ss))"

text \<open>\<open>given path\<close> is the truth value of an optional string in Python.\<close>

definition given :: "string option \<Rightarrow> bool" where
  "given path = (case path of None \<Rightarrow> False | Some p \<Rightarrow> p \<noteq> [])"

definition try_upload_known :: "'s playwright \<Rightarrow> kind \<Rightarrow> string option \<Rightarrow> ('s, event) session \<Rightarrow> bool \<times> ('s, event) session" where
  "try_upload_known pw k path ss =
     (case path of
        None \<Rightarrow> (False, ss)
      | Some p \<Rightarrow> if p = [] then (False, ss) else known_loop pw k p (FILE_SELECTORS k) ss)"

text \<open>Both clicks of a cue are in a \<open>try\<close> of their own, with \<open>pass\<close> as the handler.\<close>

fun click_possible_attach_buttons :: "'s playwright \<Rightarrow> string list \<Rightarrow> ('s, event) session \<Rightarrow> ('s, event) session" where
  "click_possible_attach_buttons pw [] ss = ss"
| "click_possible_attach_buttons pw (cue # cues) ss =
     (let p1 = snd (click_button pw cue (page ss));
          p2 = snd (click_text pw cue p1)
      in click_possible_attach_buttons pw cues (emit (ClickCue cue) (ss\<lparr>page := p2\<rparr>)))"

text \<open>
  \<open>_scan_file_inputs\<close> has no handler: an exception of \<open>count\<close> or of
  \<open>get_attribute\<close> leaves the routine. \<open>attr_or_empty\<close> is
  \<open>(await ith.get_attribute(a)) or ""\<close>.
\<close>

definition attr_or_empty :: "'s playwright \<Rightarrow> nat \<Rightarrow> string \<Rightarrow> 's \<Rightarrow> exn + string" where
  "attr_or_empty pw i a p =
     (case get_attribute_nth pw file_input_selector i a p of
        Inl e \<Rightarrow> Inl e
      | Inr None \<Rightarrow> Inr []
      | Inr (Some v) \<Rightarrow> Inr v)"

fun scan_loop :: "'s playwright \<Rightarrow> 's \<Rightarrow> nat list \<Rightarrow> exn + file_info list" where
  "scan_loop pw p [] = Inr []"
| "scan_loop pw p (i # is) =
     (case attr_or_empty pw i ''name'' p of
        Inl e \<Rightarrow> Inl e
      | Inr n \<Rightarrow>
          (case attr_or_empty pw i ''id'' p of
             Inl e \<Rightarrow> Inl e
           | Inr f \<Rightarrow>
               (case attr_or_empty pw i ''accept'' p of
                  Inl e \<Rightarrow> Inl e
                | Inr a \<Rightarrow>
                    (case scan_loop pw p is of
                       Inl e \<Rightarrow> Inl e
                     | Inr rest \<Rightarrow> Inr (\<lparr>idx = i, name = n, fid = f, accept = a\<rparr> # rest)))))"

definition scan_file_inputs :: "'s playwright \<Rightarrow> 's \<Rightarrow> exn + file_info list" where
  "scan_file_inputs pw p =
     (case count_all pw file_input_selector p of
        Inl e \<Rightarrow> Inl e
      | Inr n \<Rightarrow> scan_loop pw p [0..<n])"

text \<open>
  \<open>pick\<close>: the patterns \<open>resume|cv\<close> and \<open>cover\<close> are alternatives of plain
  strings, searched without regard to case in the name and in the id.
\<close>

fun kind_pattern :: "kind \<Rightarrow> string list" where
  "kind_pattern Resume = [''resume'', ''cv'']"
| "kind_pattern Cover = [''cover'']"

definition search_ignore_case :: "string list \<Rightarrow> string \<Rightarrow> bool" where
  "search_ignore_case alternatives s = list_ex (\<lambda>a. contains a (lower s)) alternatives"

definition pick :: "string list \<Rightarrow> file_info list \<Rightarrow> file_info option" where
  "pick alternatives inputs =
     find (\<lambda>info. search_ignore_case alternatives (name info)
                 \<or> search_ignore_case alternatives (fid info)) inputs"

text \<open>
  The two blocks after the scan that upload to the picked input, and the two generic
  fallbacks, are written once for both kinds: the source repeats each with
  \<open>resume\<close> replaced by \<open>cover\<close>. \<open>upload_nth\<close> is the \<open>try\<close> statement they
  share, which sets the flag on success and passes on an exception.
\<close>

definition upload_nth ::
  "'s playwright \<Rightarrow> (bool \<Rightarrow> event) \<Rightarrow> nat \<Rightarrow> string \<Rightarrow> bool \<Rightarrow> ('s, event) session \<Rightarrow> bool \<times> ('s, event) session" where
  "upload_nth pw ev i path uploaded ss =
     (case set_input_files_nth pw file_input_selector i path (page ss) of
        (Inl e, p) \<Rightarrow> (uploaded, emit (ev False) (ss\<lparr>page := p\<rparr>))
      | (Inr u, p) \<Rightarrow> (True, emit (ev True) (ss\<lparr>page := p\<rparr>)))"

definition upload_by_attr ::
  "'s playwright \<Rightarrow> kind \<Rightarrow> string option \<Rightarrow> file_info list \<Rightarrow> bool \<Rightarrow> ('s, event) session \<Rightarrow> bool \<times> ('s, event) session" where
  "upload_by_attr pw k path inputs uploaded ss =
     (case path of
        None \<Rightarrow> (uploaded, ss)
      | Some p \<Rightarrow>
          if p \<noteq> [] \<and> \<not> uploaded
          then (case pick (kind_pattern k) inputs of
                  None \<Rightarrow> (uploaded, ss)
                | Some tgt \<Rightarrow> upload_nth pw (TryAttr k (idx tgt)) (idx tgt) p uploaded ss)
          else (uploaded, ss))"

fun position :: "kind \<Rightarrow> nat" where
  "position Resume = 0"
| "position Cover = 1"

definition upload_by_position ::
  "'s playwright \<Rightarrow> kind \<Rightarrow> string option \<Rightarrow> file_info list \<Rightarrow> bool \<Rightarrow> ('s, event) session \<Rightarrow> bool \<times> ('s, event) session" where
  "upload_by_position pw k path inputs uploaded ss =
     (case path of
        None \<Rightarrow> (uploaded, ss)
      | Some p \<Rightarrow>
          if p \<noteq> [] \<and> \<not> uploaded \<and> length inputs > position k
          then upload_nth pw (TryPositional k (position k)) (position k) p uploaded ss
          else (uploaded, ss))"

definition upload_best_effort ::
  "'s playwright \<Rightarrow> string option \<Rightarrow> string option \<Rightarrow> ('s, event) session
     \<Rightarrow> (exn + bool \<times> bool) \<times> ('s, event) session" where
  "upload_best_effort pw resume_path cover_path ss0 =
     (let (known_resume, ss1) = try_upload_known pw Resume resume_path ss0;
          (known_cover, ss2) = try_upload_known pw Cover cover_path ss1;
          ss3 = (if (given resume_path \<and> \<not> known_resume) \<or> (given cover_path \<and> \<not> known_cover)
                 then click_possible_attach_buttons pw BUTTON_CUES ss2 else ss2)
      in case scan_file_inputs pw (page ss3) of
           Inl e \<Rightarrow> (Inl e, ss3)
         | Inr inputs \<Rightarrow>
             (let ss4 = emit (Scan inputs) ss3;
                  (attr_resume, ss5) = upload_by_attr pw Resume resume_path inputs known_resume ss4;
                  (attr_cover, ss6) = upload_by_attr pw Cover cover_path inputs known_cover ss5;
                  (uploaded_resume, ss7) = upload_by_position pw Resume resume_path inputs attr_resume ss6;
                  (uploaded_cover, ss8) = upload_by_position pw Cover cover_path inputs attr_cover ss7
              in (Inr (uploaded_resume, uploaded_cover), ss8)))"

subsection \<open>Reading a trace\<close>

text \<open>
  The strategies in the order of the claim: known selectors, clicking buttons, the scan
  and the upload to the input picked by its attributes, the positional fallback.
  \<open>about k e\<close>: the event is an attempt to upload the document of kind \<open>k\<close>;
  \<open>succeeded k e\<close>: it is one that set the file. \<open>no_retry k evs\<close>: no attempt for
  \<open>k\<close> comes after one that succeeded. \<open>known_selectors k evs\<close>: the known selectors
  tried for \<open>k\<close>, in the order of the trace.
\<close>

fun rank :: "event \<Rightarrow> nat" where
  "rank (TryKnown k sel b) = 0"
| "rank (ClickCue cue) = 1"
| "rank (Scan inputs) = 2"
| "rank (TryAttr k i b) = 2"
| "rank (TryPositional k i b) = 3"

fun about :: "kind \<Rightarrow> event \<Rightarrow> bool" where
  "about k (TryKnown k' sel b) = (k' = k)"
| "about k (TryAttr k' i b) = (k' = k)"
| "about k (TryPositional k' i b) = (k' = k)"
| "about k (ClickCue cue) = False"
| "about k (Scan inputs) = False"

fun succeeded :: "kind \<Rightarrow> event \<Rightarrow> bool" where
  "succeeded k (TryKnown k' sel b) = (k' = k \<and> b)"
| "succeeded k (TryAttr k' i b) = (k' = k \<and> b)"
| "succeeded k (TryPositional k' i b) = (k' = k \<and> b)"
| "succeeded k (ClickCue cue) = False"
| "succeeded k (Scan inputs) = False"

fun no_retry :: "kind \<Rightarrow> event list \<Rightarrow> bool" where
  "no_retry k [] = True"
| "no_retry k (e # es) = ((succeeded k e \<longrightarrow> \<not> list_ex (about k) es) \<and> no_retry k es)"

fun known_selectors :: "kind \<Rightarrow> event list \<Rightarrow> string list" where
  "known_selectors k [] = []"
| "known_selectors k (TryKnown k' sel b # es) =
     (if k' = k then sel # known_selectors k es else known_selectors k es)"
| "known_selectors k (e # es) = known_selectors k es"

text \<open>
  The events of one stage of the routine, for the proofs: \<open>known_stage\<close> for the loop
  over the known selectors \<open>sels\<close> of a kind that returns \<open>b\<close>; \<open>attr_stage\<close>
  and \<open>positional_stage\<close> for the two stages after the scan, which make at most one
  attempt, with the flag \<open>uploaded\<close> of the kind before and after the stage.
\<close>

definition known_stage :: "kind \<Rightarrow> string list \<Rightarrow> bool \<Rightarrow> event list \<Rightarrow> bool" where
  "known_stage k sels b evs =
     (\<exists>failed. evs = map (\<lambda>sel. TryKnown k sel False) failed
                     @ (if b then [TryKnown k (sels ! length failed) True] else [])
              \<and> (if b then length failed < length sels \<and> failed = take (length failed) sels
                  else failed = sels))"

definition attr_stage :: "kind \<Rightarrow> string option \<Rightarrow> file_info list \<Rightarrow> bool \<Rightarrow> bool \<Rightarrow> event list \<Rightarrow> bool" where
  "attr_stage k path inputs before after evs =
     ((evs = [] \<and> after = before)
      \<or> (given path \<and> \<not> before
          \<and> (\<exists>tgt. pick (kind_pattern k) inputs = Some tgt \<and> evs = [TryAttr k (idx tgt) after])))"

definition positional_stage :: "kind \<Rightarrow> string option \<Rightarrow> file_info list \<Rightarrow> bool \<Rightarrow> bool \<Rightarrow> event list \<Rightarrow> bool" where
  "positional_stage k path inputs before after evs =
     ((evs = [] \<and> after = before)
      \<or> (given path \<and> \<not> before \<and> position k < length inputs
          \<and> evs = [TryPositional k (position k) after]))"

text \<open>
  \<open>flag_stage k before after evs\<close>: what a stretch of the trace does for the kind
  \<open>k\<close>, whose flag \<open>uploaded\<close> is \<open>before\<close> when the stretch starts and \<open>after\<close>
  when it ends: it attempts nothing for \<open>k\<close> when the flag is set, it attempts
  nothing after a success, and it sets the flag exactly by a success.
\<close>

definition flag_stage :: "kind \<Rightarrow> bool \<Rightarrow> bool \<Rightarrow> event list \<Rightarrow> bool" where
  "flag_stage k before after evs =
     (no_retry k evs \<and> (list_ex (about k) evs \<longrightarrow> \<not> before)
      \<and> after = (before \<or> list_ex (succeeded k) evs))"

fun path_of :: "kind \<Rightarrow> string option \<Rightarrow> string option \<Rightarrow> string option" where
  "path_of Resume resume_path cover_path = resume_path"
| "path_of Cover resume_path cover_path = cover_path"

subsection \<open>Text fields\<close>

text \<open>
  The label patterns are regular expressions that Playwright matches against the labels
  of the page; the model passes them on as text, \<open>ws\<close> standing for \<open>\s*\<close>.
\<close>

definition PROFILE :: "(string \<times> string) list" where
  "PROFILE =
     [(''first'', ''Jordan''),
      (''last'', ''Miller''),
      (''email'', ''jordan.miller@example.com''),
      (''phone'', ''+41 79 555 12 34''),
      (''linkedin'', ''https://www.linkedin.com/in/jordanmiller123''),
      (''website'', ''https://jordanmiller.dev''),
      (''city'', ''Zurich, Switzerland''),
      (''employer'', ''Acme Analytics AG''),
      (''job_title'', ''Data Analyst''),
      (''school'', ''University of Zurich''),
      (''degree'', ''B.Sc. Computer Science'')]"

definition ws :: string where
  "ws = [CHR 0x5C] @ ''s*''"

definition LABEL_PATTERNS :: "(string \<times> string list) list" where
  "LABEL_PATTERNS =
     [(''first'', [''first'' @ ws @ ''name'']),
      (''last'', [''last'' @ ws @ ''name|surname'']),
      (''email'', [''email'']),
      (''phone'', [''phone|mobile'']),
      (''linkedin'', [''linkedin'']),
      (''website'', [''website|portfolio|personal'' @ ws @ ''site'']),
      (''city'', [''where.*based|current.*location|city|location'']),
      (''employer'', [''current.*employer|previous.*employer|company'']),
      (''job_title'', [''current.*job.*title|previous.*job.*title|job'' @ ws @ ''title|title'']),
      (''school'', [''most.*recent.*school|school|university|college'']),
      (''degree'', [''most.*recent.*degree|degree|qualification''])]"

definition CSS_FALLBACKS :: "(string \<times> string list) list" where
  "CSS_FALLBACKS =
     [(''first'', [''input[name*='' @ q ''firstName'' @ '']'', ''input[name*='' @ q ''first_name'' @ '']'']),
      (''last'', [''input[name*='' @ q ''lastName'' @ '']'', ''input[name*='' @ q ''last_name'' @ '']'']),
      (''email'', [''input[type='' @ q ''email'' @ '']'', ''input[name*='' @ q ''email'' @ '']'']),
      (''phone'', [''input[type='' @ q ''tel'' @ '']'', ''input[name*='' @ q ''phone'' @ '']'']),
      (''linkedin'', [''input[name*='' @ q ''linkedin'' @ '']'',
                      ''input[placeholder*='' @ q ''LinkedIn'' @ '' i]'']),
      (''website'', [''input[name*='' @ q ''website'' @ '']'', ''input[name*='' @ q ''portfolio'' @ '']'']),
      (''city'', [''input[name*='' @ q ''city'' @ '']'', ''input[name*='' @ q ''location'' @ '']'',
                  ''input[placeholder*='' @ q ''location'' @ '' i]'']),
      (''employer'', [''input[name*='' @ q ''employer'' @ '']'', ''input[name*='' @ q ''company'' @ '']'']),
      (''job_title'', [''input[name*='' @ q ''title'' @ '']'']),
      (''school'', [''input[name*='' @ q ''school'' @ '']'', ''input[name*='' @ q ''university'' @ '']'',
                    ''input[name*='' @ q ''college'' @ '']'']),
      (''degree'', [''input[name*='' @ q ''degree'' @ '']''])]"

definition text_input_selector :: string where
  "text_input_selector = ''input[type='' @ q ''text'' @ ''], input:not([type])''"

text \<open>
  The events of the text-field routine: a label pattern tried for a profile key, a CSS
  fallback selector tried for a key (\<open>True\<close> when the field was filled), and, in the
  final pass, the text input with the given index filled with a value (\<open>True\<close> when
  \<open>fill\<close> did not raise).
\<close>

datatype fill_event =
    ByLabel string string bool
  | ByCss string string bool
  | ByCue nat string bool

fun label_loop ::
  "'s playwright \<Rightarrow> string \<Rightarrow> string \<Rightarrow> string list \<Rightarrow> ('s, fill_event) session
     \<Rightarrow> bool \<times> ('s, fill_event) session" where
  "label_loop pw key v [] ss = (False, ss)"
| "label_loop pw key v (pat # pats) ss =
     (case fill_by_label pw pat v (page ss) of
        (Inl e, p) \<Rightarrow> label_loop pw key v pats (emit (ByLabel key pat False) (ss\<lparr>page := p\<rparr>))
      | (Inr u, p) \<Rightarrow> (True, emit (ByLabel key pat True) (ss\<lparr>page := p\<rparr>)))"

fun css_loop ::
  "'s playwright \<Rightarrow> string \<Rightarrow> string \<Rightarrow> string list \<Rightarrow> ('s, fill_event) session
     \<Rightarrow> bool \<times> ('s, fill_event) session" where
  "css_loop pw key v [] ss = (False, ss)"
| "css_loop pw key v (sel # sels) ss =
     (case count_first pw sel (page ss) of
        Inl e \<Rightarrow> css_loop pw key v sels (emit (ByCss key sel False) ss)
      | Inr n \<Rightarrow>
          if n > 0
          then (case fill_first pw sel v (page ss) of
                  (Inl e, p) \<Rightarrow> css_loop pw key v sels (emit (ByCss key sel False) (ss\<lparr>page := p\<rparr>))
                | (Inr u, p) \<Rightarrow> (True, emit (ByCss key sel True) (ss\<lparr>page := p\<rparr>)))
          else css_loop pw key v sels (emit (ByCss key sel False) ss))"

text \<open>\<open>get d k default\<close> is \<open>d.get(k, default)\<close>.\<close>

definition get :: "('k \<times> 'v) list \<Rightarrow> 'k \<Rightarrow> 'v \<Rightarrow> 'v" where
  "get d k dflt = (case map_of d k of None \<Rightarrow> dflt | Some v \<Rightarrow> v)"

definition fill_field ::
  "'s playwright \<Rightarrow> string \<Rightarrow> string \<Rightarrow> ('s, fill_event) session \<Rightarrow> bool \<times> ('s, fill_event) session" where
  "fill_field pw key v ss =
     (if v = [] then (False, ss)
      else case label_loop pw key v (get LABEL_PATTERNS key []) ss of
             (True, ss') \<Rightarrow> (True, ss')
           | (False, ss') \<Rightarrow>
               (case map_of CSS_FALLBACKS key of
                  Some sels \<Rightarrow> css_loop pw key v sels ss'
                | None \<Rightarrow> (False, ss')))"

text \<open>
  The cues of the final pass are regular expressions that the routine itself matches
  with \<open>re.search\<close>. They are alternatives of plain words, one of them with \<open>\s*\<close>
  between two words: a pattern is a list of alternatives, an alternative a list of
  atoms. \<open>match_here\<close> matches an alternative at the start of a string and
  \<open>re_search\<close> anywhere in it.
\<close>

datatype atom = Lit string | Spaces

fun match_here :: "atom list \<Rightarrow> string \<Rightarrow> bool" where
  "match_here [] s = True"
| "match_here (Lit l # as) s = (prefix l s \<and> match_here as (drop (length l) s))"
| "match_here (Spaces # as) [] = match_here as []"
| "match_here (Spaces # as) (c # cs) =
     (match_here as (c # cs) \<or> (is_space c \<and> match_here (Spaces # as) cs))"

fun search_alternative :: "atom list \<Rightarrow> string \<Rightarrow> bool" where
  "search_alternative alt [] = match_here alt []"
| "search_alternative alt (c # cs) = (match_here alt (c # cs) \<or> search_alternative alt cs)"

definition re_search :: "atom list list \<Rightarrow> string \<Rightarrow> bool" where
  "re_search pattern s = list_ex (\<lambda>alt. search_alternative alt s) pattern"

text \<open>
  The dictionary \<open>cues\<close>, in the order of the literal; \<open>profile[k]\<close> raises
  \<open>KeyError\<close> when the profile lacks the key.
\<close>

definition CUE_PATTERNS :: "(atom list list \<times> string) list" where
  "CUE_PATTERNS =
     [([[Lit ''city''], [Lit ''location'']], ''city''),
      ([[Lit ''employer''], [Lit ''company'']], ''employer''),
      ([[Lit ''job'', Spaces, Lit ''title''], [Lit ''title'']], ''job_title''),
      ([[Lit ''school''], [Lit ''university''], [Lit ''college'']], ''school''),
      ([[Lit ''degree''], [Lit ''qualification'']], ''degree''),
      ([[Lit ''linkedin'']], ''linkedin''),
      ([[Lit ''website''], [Lit ''portfolio'']], ''website'')]"

fun build_cues ::
  "(string \<times> string) list \<Rightarrow> (atom list list \<times> string) list
     \<Rightarrow> exn + (atom list list \<times> string) list" where
  "build_cues profile [] = Inr []"
| "build_cues profile ((pat, key) # rest) =
     (case map_of profile key of
        None \<Rightarrow> Inl (KeyError key)
      | Some v \<Rightarrow>
          (case build_cues profile rest of
             Inl e \<Rightarrow> Inl e
           | Inr cues \<Rightarrow> Inr ((pat, v) # cues)))"

text \<open>
  \<open>blob_of\<close>: placeholder, name and aria-label of the text input \<open>i\<close>, joined by
  spaces and lowercased. \<open>first_cue\<close>: the value of the first cue, in the order of the
  dictionary, that has a value and matches the blob.
\<close>

definition text_attr :: "'s playwright \<Rightarrow> nat \<Rightarrow> string \<Rightarrow> 's \<Rightarrow> exn + string" where
  "text_attr pw i a p =
     (case get_attribute_nth pw text_input_selector i a p of
        Inl e \<Rightarrow> Inl e
      | Inr None \<Rightarrow> Inr []
      | Inr (Some v) \<Rightarrow> Inr v)"

definition blob_of :: "'s playwright \<Rightarrow> nat \<Rightarrow> 's \<Rightarrow> exn + string" where
  "blob_of pw i p =
     (case text_attr pw i ''placeholder'' p of
        Inl e \<Rightarrow> Inl e
      | Inr ph \<Rightarrow>
          (case text_attr pw i ''name'' p of
             Inl e \<Rightarrow> Inl e
           | Inr nm \<Rightarrow>
               (case text_attr pw i ''aria-label'' p of
                  Inl e \<Rightarrow> Inl e
                | Inr al \<Rightarrow> Inr (lower (join '' '' [ph, nm, al])))))"

definition first_cue :: "(atom list list \<times> string) list \<Rightarrow> string \<Rightarrow> string option" where
  "first_cue cues blob =
     map_option snd (find (\<lambda>(pat, v). v \<noteq> [] \<and> re_search pat blob) cues)"

text \<open>
  The body of the loop of the final pass, a \<open>try\<close> whose handler is \<open>pass\<close>, for the
  text input \<open>i\<close>.
\<close>

definition final_step ::
  "'s playwright \<Rightarrow> (atom list list \<times> string) list \<Rightarrow> nat \<Rightarrow> ('s, fill_event) session
     \<Rightarrow> ('s, fill_event) session" where
  "final_step pw cues i ss =
     (case input_value_nth pw text_input_selector i (page ss) of
        Inl e \<Rightarrow> ss
      | Inr current \<Rightarrow>
          if current \<noteq> [] then ss
          else (case blob_of pw i (page ss) of
                  Inl e \<Rightarrow> ss
                | Inr blob \<Rightarrow>
                    (case first_cue cues blob of
                       None \<Rightarrow> ss
                     | Some v \<Rightarrow>
                         (case fill_nth pw text_input_selector i v (page ss) of
                            (Inl e, p) \<Rightarrow> emit (ByCue i v False) (ss\<lparr>page := p\<rparr>)
                          | (Inr u, p) \<Rightarrow> emit (ByCue i v True) (ss\<lparr>page := p\<rparr>)))))"

definition BASIC_KEYS :: "string list" where
  "BASIC_KEYS = [''first'', ''last'', ''email'', ''phone'', ''linkedin'', ''website'']"

definition EXTRA_KEYS :: "string list" where
  "EXTRA_KEYS = [''city'', ''employer'', ''job_title'', ''school'', ''degree'']"

definition fill_fields ::
  "'s playwright \<Rightarrow> (string \<times> string) list \<Rightarrow> string list \<Rightarrow> ('s, fill_event) session
     \<Rightarrow> ('s, fill_event) session" where
  "fill_fields pw profile keys ss =
     foldl (\<lambda>ss k. snd (fill_field pw k (get profile k []) ss)) ss keys"

definition fill_all_textish ::
  "'s playwright \<Rightarrow> (string \<times> string) list \<Rightarrow> ('s, fill_event) session
     \<Rightarrow> (exn + unit) \<times> ('s, fill_event) session" where
  "fill_all_textish pw profile ss0 =
     (let ss1 = fill_fields pw profile BASIC_KEYS ss0;
          ss2 = fill_fields pw profile EXTRA_KEYS ss1
      in case build_cues profile CUE_PATTERNS of
           Inl e \<Rightarrow> (Inl e, ss2)
         | Inr cues \<Rightarrow>
             (case count_all pw text_input_selector (page ss2) of
                Inl e \<Rightarrow> (Inl e, ss2)
              | Inr n \<Rightarrow> (Inr (), foldl (\<lambda>ss i. final_step pw cues i ss) ss2 [0..<n])))"

text \<open>
  The events of a stage of the text-field routine, for the proofs. \<open>attempts mk xs b evs\<close>:
  the candidates \<open>xs\<close> are tried in their order, each attempt recorded by \<open>mk\<close>,
  up to the first that succeeds (\<open>b\<close>) or to the end. \<open>field_stage\<close>: nothing for
  a key without value; otherwise the label patterns of the key and, only when none of
  them filled the field, its CSS fallbacks. \<open>cue_stage\<close>: at most one fill of the
  text input \<open>i\<close>, which was empty, with the value of the first cue that matches its
  blob.
\<close>

definition attempts :: "('a \<Rightarrow> bool \<Rightarrow> 'e) \<Rightarrow> 'a list \<Rightarrow> bool \<Rightarrow> 'e list \<Rightarrow> bool" where
  "attempts mk xs b evs =
     (\<exists>failed. evs = map (\<lambda>x. mk x False) failed
                     @ (if b then [mk (xs ! length failed) True] else [])
              \<and> (if b then length failed < length xs \<and> failed = take (length failed) xs
                  else failed = xs))"

definition field_stage :: "string \<Rightarrow> string \<Rightarrow> bool \<Rightarrow> fill_event list \<Rightarrow> bool" where
  "field_stage key v filled evs =
     (if v = [] then evs = [] \<and> \<not> filled
      else \<exists>labels by_label.
             attempts (ByLabel key) (get LABEL_PATTERNS key []) by_label labels
             \<and> (if by_label then evs = labels \<and> filled
                 else \<exists>fallbacks. attempts (ByCss key) (get CSS_FALLBACKS key []) filled fallbacks
                                 \<and> evs = labels @ fallbacks))"

definition cue_stage :: "'s playwright \<Rightarrow> (atom list list \<times> string) list \<Rightarrow> nat \<Rightarrow> fill_event list \<Rightarrow> bool" where
  "cue_stage pw cues i evs =
     (evs = []
      \<or> (\<exists>p v b blob. evs = [ByCue i v b]
            \<and> input_value_nth pw text_input_selector i p = Inr []
            \<and> blob_of pw i p = Inr blob \<and> first_cue cues blob = Some v))"

subsection \<open>Example page\<close>

text \<open>
  A page with two file inputs, named \<open>upload1\<close> and \<open>my_cv\<close>, that no known selector
  finds, without buttons to click, and with two text inputs: the first is labelled
  \<open>City\<close>, the second has the placeholder \<open>Location\<close> and no label. The state of
  the page is the list of the files set, with the index of the input, and the values of
  the two text inputs.
\<close>

record example_page =
  uploads :: "(nat \<times> string) list"
  texts :: "string list"

definition example_pw :: "example_page playwright" where
  "example_pw =
     \<lparr>count_first = (\<lambda>sel p. Inr 0),
      set_input_files_first = (\<lambda>sel path p. (Inl (PlaywrightError ''Timeout 2500ms exceeded''), p)),
      click_button = (\<lambda>cue p. (Inl (PlaywrightError ''Timeout 800ms exceeded''), p)),
      click_text = (\<lambda>cue p. (Inl (PlaywrightError ''Timeout 800ms exceeded''), p)),
      count_all = (\<lambda>sel p. Inr 2),
      get_attribute_nth = (\<lambda>sel i a p.
        Inr (if sel = file_input_selector
             then (if a = ''name'' then (if i = 0 then Some ''upload1'' else Some ''my_cv'') else None)
             else (if a = ''name'' then (if i = 0 then Some ''a'' else Some ''b'')
                   else if a = ''placeholder'' \<and> i = 1 then Some ''Location'' else None))),
      set_input_files_nth = (\<lambda>sel i path p. (Inr (), p\<lparr>uploads := uploads p @ [(i, path)]\<rparr>)),
      fill_by_label = (\<lambda>pat v p.
        if pat = ''where.*based|current.*location|city|location''
        then (Inr (), p\<lparr>texts := (texts p)[0 := v]\<rparr>)
        else (Inl (PlaywrightError ''Timeout 1500ms exceeded''), p)),
      fill_first = (\<lambda>sel v p. (Inl (PlaywrightError ''Timeout 1500ms exceeded''), p)),
      input_value_nth = (\<lambda>sel i p. if i < length (texts p) then Inr (texts p ! i)
                                   else Inl (PlaywrightError ''Timeout 30000ms exceeded'')),
      fill_nth = (\<lambda>sel i v p. (Inr (), p\<lparr>texts := (texts p)[i := v]\<rparr>))\<rparr>"

definition example_page0 :: example_page where
  "example_page0 = \<lparr>uploads = [], texts = [[], []]\<rparr>"

text \<open>The two runs on the example page, from an empty trace.\<close>

definition example_upload_run ::
  "(exn + bool \<times> bool) \<times> (example_page, event) session" where
  "example_upload_run =
     upload_best_effort example_pw (Some ''/docs/cv.pdf'') (Some ''/docs/letter.pdf'')
       \<lparr>page = example_page0, trace = []\<rparr>"

definition example_fill_run :: "(exn + unit) \<times> (example_page, fill_event) session" where
  "example_fill_run = fill_all_textish example_pw PROFILE \<lparr>page = example_page0, trace = []\<rparr>"

definition example_inputs :: "file_info list" where
  "example_inputs =
     [\<lparr>idx = 0, name = ''upload1'', fid = [], accept = []\<rparr>,
      \<lparr>idx = 1, name = ''my_cv'', fid = [], accept = []\<rparr>]"

definition city_pattern :: string where
  "city_pattern = ''where.*based|current.*location|city|location''"

definition city_value :: string where
  "city_value = ''Zurich, Switzerland''"

chapter \<open>Properties\<close>

section \<open>Properties of wrap\_line\<close>

lemma rfind_Some_less: "rfind c s = Some i \<Longrightarrow> i < length s \<and> s ! i = c"
  by (induction s arbitrary: i) (auto split: option.splits if_splits)

lemma cut_at_le: "cut_at m line \<le> m"
proof (cases "rfind CHR '' '' (take m line)")
  case None
  then show ?thesis by (simp add: cut_at_def)
next
  case (Some i)
  then have "i < length (take m line)" using rfind_Some_less by blast
  with Some show ?thesis by (simp add: cut_at_def)
qed

lemma cut_at_zero_space:
  assumes "cut_at m line = 0" and "1 \<le> m" and "m < length line"
  shows "\<exists>rest. line = CHR '' '' # rest"
proof (cases "rfind CHR '' '' (take m line)")
  case None
  with assms show ?thesis by (simp add: cut_at_def)
next
  case (Some i)
  with assms have i0: "i = 0" by (simp add: cut_at_def)
  from Some have "take m line ! i = CHR '' ''" using rfind_Some_less by blast
  with i0 assms have "line ! 0 = CHR '' ''" by simp
  with assms show ?thesis by (cases line) auto
qed

lemma length_lstrip_le: "length (lstrip s) \<le> length s"
  by (simp add: lstrip_def length_dropWhile_le)

lemma rest_after_shorter:
  assumes "1 \<le> m" and "m < length line"
  shows "length (rest_after m line) < length line"
proof (cases "cut_at m line = 0")
  case True
  then obtain rest where l: "line = CHR '' '' # rest"
    using cut_at_zero_space assms by blast
  have "rest_after m line = lstrip rest"
    using True l by (simp add: rest_after_def lstrip_def is_space_def)
  then show ?thesis using length_lstrip_le [of rest] l by simp
next
  case False
  have "length (rest_after m line) \<le> length (drop (cut_at m line) line)"
    unfolding rest_after_def by (rule length_lstrip_le)
  also have "\<dots> < length line" using False assms by simp
  finally show ?thesis .
qed

lemma wrap_loop_returns:
  assumes "1 \<le> m"
  shows "\<exists>ys. wrap_loop m chunks line = Some (chunks @ ys) \<and> ys \<noteq> []
           \<and> (\<forall>c \<in> set ys. length c \<le> m)"
proof (induction "length line" arbitrary: line chunks rule: less_induct)
  case less
  show ?case
  proof (cases "m < length line")
    case False
    then have "wrap_loop m chunks line = Some (chunks @ [line])"
      by (subst wrap_loop.simps) simp
    with False show ?thesis by auto
  next
    case True
    let ?c = "take (cut_at m line) line"
    have "length (rest_after m line) < length line"
      using rest_after_shorter assms True by blast
    from less [OF this, of "chunks @ [?c]"]
    obtain ys where ys: "wrap_loop m (chunks @ [?c]) (rest_after m line) = Some ((chunks @ [?c]) @ ys)"
      and b: "\<forall>c \<in> set ys. length c \<le> m" by blast
    have "wrap_loop m chunks line = Some (chunks @ (?c # ys))"
      using True ys by (subst wrap_loop.simps) simp
    moreover have "length ?c \<le> m" using cut_at_le [of m line] by simp
    ultimately show ?thesis using b by auto
  qed
qed

text \<open>
  C10: for every line and every \<open>max_chars \<ge> 1\<close>, \<open>wrap_line\<close> returns; the list it
  returns is not empty and each of its chunks has at most \<open>max_chars\<close> characters; and
  an iteration of the loop (entered when the line is longer than \<open>max_chars\<close>) leaves
  a strictly shorter line.
\<close>

theorem wrap_line_terminates_bounded:
  assumes "1 \<le> max_chars"
  shows "(\<exists>chunks. wrap_line max_chars line = Some chunks \<and> chunks \<noteq> []
            \<and> (\<forall>c \<in> set chunks. c \<noteq> [] \<longrightarrow> length c \<le> max_chars))
         \<and> (max_chars < length line \<longrightarrow>
              length (rest_after max_chars line) < length line)"
proof -
  obtain ys where "wrap_loop max_chars [] line = Some ([] @ ys)" "ys \<noteq> []"
    "\<forall>c \<in> set ys. length c \<le> max_chars"
    using wrap_loop_returns [OF assms, of "[]" line] by blast
  then show ?thesis
    using rest_after_shorter [OF assms] by (auto simp: wrap_line_def)
qed

theorem wrap_line_terminates_bounded_witness:
  "(1::nat) \<le> 3 \<and> wrap_line 3 ''ab cdefg'' = Some [''ab'', ''cde'', ''fg'']
     \<and> length (rest_after 3 ''ab cdefg'') < length ''ab cdefg''"
  using wrap_line_terminates_bounded [of 3 "''ab cdefg''"]
  by (simp add: wrap_line_def wrap_loop.simps cut_at_def rest_after_def lstrip_def is_space_def)

section \<open>Properties of skill\_score\<close>

lemma round_half_even_bounds:
  assumes "0 \<le> x" and "x \<le> of_int n"
  shows "0 \<le> round_half_even x \<and> round_half_even x \<le> n"
proof -
  have f0: "0 \<le> \<lfloor>x\<rfloor>" using assms by simp
  have fn: "\<lfloor>x\<rfloor> \<le> n" using assms by (simp add: floor_le_iff)
  have lo: "\<lfloor>x\<rfloor> \<le> round_half_even x"
    by (simp add: round_half_even_def Let_def)
  have hi: "round_half_even x \<le> n"
  proof (cases "x = of_int \<lfloor>x\<rfloor>")
    case True
    then have "round_half_even x = \<lfloor>x\<rfloor>" by (simp add: round_half_even_def Let_def)
    with fn show ?thesis by simp
  next
    case False
    then have "of_int \<lfloor>x\<rfloor> < x" using of_int_floor_le [of x] by linarith
    with assms have "(of_int \<lfloor>x\<rfloor> :: real) < of_int n" by linarith
    then have "\<lfloor>x\<rfloor> < n" by simp
    moreover have "round_half_even x \<le> \<lfloor>x\<rfloor> + 1" by (simp add: round_half_even_def Let_def)
    ultimately show ?thesis by linarith
  qed
  from f0 lo hi show ?thesis by linarith
qed

lemma round1_bounds:
  assumes fl: "float_rounding fl" and "0 \<le> x" and "x \<le> 100"
  shows "0 \<le> round1 fl x \<and> round1 fl x \<le> 100"
proof -
  let ?r = "round_half_even (10 * x)"
  have "0 \<le> ?r \<and> ?r \<le> 1000"
    using round_half_even_bounds [of "10 * x" 1000] assms by simp
  then have "(0::real) \<le> of_int ?r / 10" and "(of_int ?r :: real) / 10 \<le> 100"
    by simp_all
  moreover have mono: "\<And>x y. x \<le> y \<Longrightarrow> fl x \<le> fl y"
    using fl by (simp add: float_rounding_def)
  ultimately have "fl 0 \<le> fl (of_int ?r / 10)" and "fl (of_int ?r / 10) \<le> fl 100"
    by (blast intro: mono)+
  then show ?thesis using fl by (simp add: round1_def float_rounding_def)
qed

lemma score_skills_ok:
  assumes fl: "float_rounding fl" and w: "0 \<le> w"
  shows "acc_ok fl acc \<Longrightarrow> acc_ok fl (score_skills fl pr text w skills acc)"
proof (induction skills arbitrary: acc)
  case Nil
  then show ?case by simp
next
  case (Cons s skills)
  obtain h t where acc: "acc = (h, t)" by (cases acc)
  from Cons.prems acc have rep: "fl h = h" "fl t = t" and h0: "0 \<le> h" and ht: "h \<le> t"
    by (simp_all add: acc_ok_def)
  have mono: "\<And>x y. x \<le> y \<Longrightarrow> fl x \<le> fl y" and idem: "\<And>x. fl (fl x) = fl x"
    using fl by (simp_all add: float_rounding_def)
  have a: "fl (h + w) \<le> fl (t + w)" using ht by (intro mono) simp
  have b: "h \<le> fl (t + w)" using mono [of h "t + w"] rep ht w by simp
  have c: "0 \<le> fl (h + w)" using mono [of 0 "h + w"] h0 w fl by (simp add: float_rounding_def)
  have "acc_ok fl (if exact_or_fuzzy_hit pr (lower s) text then fl (h + w) else h, fl (t + w))"
    using a b c h0 rep idem by (simp add: acc_ok_def)
  from Cons.IH [OF this] show ?case by (simp add: acc)
qed

lemma bucket_weight_nonneg:
  assumes fl: "float_rounding fl"
  shows "0 \<le> bucket_weight fl b"
proof -
  have mono: "\<And>x y. x \<le> y \<Longrightarrow> fl x \<le> fl y" and z: "fl 0 = 0"
    using fl by (simp_all add: float_rounding_def)
  have "\<And>c. 0 \<le> c \<Longrightarrow> 0 \<le> fl c" using mono [of 0] z by simp
  then show ?thesis
    by (simp add: bucket_weight_def BUCKET_WEIGHTS_def)
qed

lemma score_buckets_ok:
  assumes fl: "float_rounding fl"
  shows "acc_ok fl acc \<Longrightarrow> acc_ok fl (score_buckets fl pr text buckets acc)"
proof (induction buckets arbitrary: acc)
  case Nil
  then show ?case by simp
next
  case (Cons b buckets)
  obtain n skills where b: "b = (n, skills)" by (cases b)
  have "acc_ok fl (score_skills fl pr text (bucket_weight fl n) (skill_names skills) acc)"
    using score_skills_ok [OF fl bucket_weight_nonneg [OF fl]] Cons.prems by blast
  from Cons.IH [OF this] show ?case by (simp add: b)
qed

text \<open>
  C1: for every rounding \<open>fl\<close> with the properties of \<open>float_rounding\<close>, every
  \<open>partial_ratio\<close> and every text, the score lies between 0 and 100; and
  \<open>skill_score\<close> is a function of the text alone (it reads and writes no state), so
  two calls on the same text give the same value.
\<close>

theorem skill_score_range:
  assumes fl: "float_rounding fl"
  shows "0 \<le> skill_score fl partial_ratio text \<and> skill_score fl partial_ratio text \<le> 100
         \<and> (\<forall>text'. text' = text \<longrightarrow>
               skill_score fl partial_ratio text' = skill_score fl partial_ratio text)"
proof -
  obtain h t where ht: "score_buckets fl partial_ratio (normalize_text text) MY_SKILLS (0, 0) = (h, t)"
    by (cases "score_buckets fl partial_ratio (normalize_text text) MY_SKILLS (0, 0)")
  have "acc_ok fl (0, 0)" using fl by (simp add: acc_ok_def float_rounding_def)
  from score_buckets_ok [OF fl this, of partial_ratio "normalize_text text" MY_SKILLS] ht
  have h0: "0 \<le> h" and le: "h \<le> t" by (simp_all add: acc_ok_def)
  have mono: "\<And>x y. x \<le> y \<Longrightarrow> fl x \<le> fl y" and z: "fl 0 = 0" "fl 1 = 1" "fl 100 = 100"
    using fl by (simp_all add: float_rounding_def)
  show ?thesis
  proof (cases "t = 0")
    case True
    with ht show ?thesis by (simp add: skill_score_def)
  next
    case False
    with h0 le have tpos: "0 < t" by linarith
    have q: "0 \<le> h / t" "h / t \<le> 1" using h0 le tpos by simp_all
    have "0 \<le> fl (h / t)" "fl (h / t) \<le> 1" using mono [OF q(1)] mono [OF q(2)] z by simp_all
    then have "0 \<le> 100 * fl (h / t)" "100 * fl (h / t) \<le> 100" by simp_all
    then have "0 \<le> fl (100 * fl (h / t))" "fl (100 * fl (h / t)) \<le> 100"
      using mono [of 0 "100 * fl (h / t)"] mono [of "100 * fl (h / t)" 100] z by simp_all
    from round1_bounds [OF fl this] show ?thesis
      using ht False by (simp add: skill_score_def)
  qed
qed




lemma l1: "lower ''Docker and AWS'' = ''docker and aws''"
  by code_simp





lemma l2: "score_buckets (\<lambda>x. x) (\<lambda>a b. 0) ''docker and aws'' MY_SKILLS (0, 0) = (18 / 10, 166 / 10)"
  by (simp add: MY_SKILLS_def bucket_weight_def BUCKET_WEIGHTS_def exact_or_fuzzy_hit_def FUZZY_THRESHOLD_def lower_def lower_char_def)




theorem skill_score_range_witness:
  "float_rounding (\<lambda>x. x)
   \<and> skill_score (\<lambda>x. x) (\<lambda>a b. 0) ''Docker and AWS'' = 108 / 10
   \<and> 0 \<le> skill_score (\<lambda>x. x) (\<lambda>a b. 0) ''Docker and AWS''
   \<and> skill_score (\<lambda>x. x) (\<lambda>a b. 0) ''Docker and AWS'' \<le> 100"
proof -
  have fl: "float_rounding (\<lambda>x. x)" by (simp add: float_rounding_def)
  have t: "normalize_text ''Docker and AWS'' = ''docker and aws''"
    unfolding normalize_text_def by code_simp
  have b: "score_buckets (\<lambda>x. x) (\<lambda>a b. 0) ''docker and aws'' MY_SKILLS (0, 0) = (18 / 10, 166 / 10)"
    by (simp add: MY_SKILLS_def bucket_weight_def BUCKET_WEIGHTS_def exact_or_fuzzy_hit_def
        FUZZY_THRESHOLD_def lower_def lower_char_def)
  have r: "round1 (\<lambda>x. x) (100 * ((18 / 10) / (166 / 10))) = 108 / 10"
    by (simp add: round1_def round_half_even_def Let_def)
  have s: "skill_score (\<lambda>x. x) (\<lambda>a b. 0) ''Docker and AWS''
          = round1 (\<lambda>x. x) (100 * ((18 / 10) / (166 / 10)))"
    by (simp add: skill_score_def t b)
  have v: "skill_score (\<lambda>x. x) (\<lambda>a b. 0) ''Docker and AWS'' = 108 / 10"
    by (simp only: s r)
  show ?thesis using fl v skill_score_range [OF fl, of "\<lambda>a b. 0" "''Docker and AWS''"] by blast
qed

section \<open>Properties of the store\<close>

lemma create_jobs_twice:
  "create_jobs_if_not_exists s (create_jobs_if_not_exists s d) = create_jobs_if_not_exists s d"
  by (simp add: create_jobs_if_not_exists_def split: option.splits)

lemma create_applications_twice:
  "create_applications_if_not_exists (create_applications_if_not_exists d)
     = create_applications_if_not_exists d"
  by (simp add: create_applications_if_not_exists_def split: option.splits)

lemma jobs_create_applications [simp]:
  "jobs (create_applications_if_not_exists d) = jobs d"
  by (simp add: create_applications_if_not_exists_def split: option.splits)

lemma applications_create_jobs [simp]:
  "applications (create_jobs_if_not_exists s d) = applications d"
  by (simp add: create_jobs_if_not_exists_def split: option.splits)

lemma create_commute:
  "create_jobs_if_not_exists s (create_applications_if_not_exists d)
     = create_applications_if_not_exists (create_jobs_if_not_exists s d)"
  by (simp add: create_jobs_if_not_exists_def create_applications_if_not_exists_def
      split: option.splits)

lemma ensure_db_twice:
  "ensure_db d = Inr d1 \<Longrightarrow> ensure_db d1 = Inr d1"
  by (auto simp: ensure_db_def create_commute create_jobs_twice create_applications_twice)

lemma ensure_score_column_twice:
  assumes "ensure_score_column d = Inr d1"
  shows "ensure_score_column d1 = Inr d1"
proof (cases "jobs d")
  case None
  with assms show ?thesis
    by (simp add: ensure_score_column_def table_info_def add_score_column_def)
next
  case (Some t)
  with assms show ?thesis
    by (cases "schema t")
      (auto simp: ensure_score_column_def table_info_def add_score_column_def)
qed

lemma ensure_score_column_succeeds:
  assumes "jobs d = Some t"
  shows "\<exists>d1. ensure_score_column d = Inr d1"
  using assms
  by (cases "schema t") (simp_all add: ensure_score_column_def table_info_def add_score_column_def)

text \<open>
  C7: \<open>ensure_schema\<close> and \<open>ensure_db\<close> always succeed, and a second run on the
  database that the first run left returns that database unchanged (schema and rows);
  the same holds for \<open>ensure_score_column\<close> whenever its first run succeeds, which it
  does on every database that has a \<open>jobs\<close> table, with or without a score column.
\<close>

theorem schema_creation_idempotent:
  "(\<exists>d1. ensure_schema d = Inr d1 \<and> ensure_schema d1 = Inr d1)
   \<and> (\<exists>d1. ensure_db d = Inr d1 \<and> ensure_db d1 = Inr d1)
   \<and> (\<forall>d1. ensure_score_column d = Inr d1 \<longrightarrow> ensure_score_column d1 = Inr d1)
   \<and> (jobs d \<noteq> None \<longrightarrow> (\<exists>d1. ensure_score_column d = Inr d1))"
proof (intro conjI)
  show "\<exists>d1. ensure_schema d = Inr d1 \<and> ensure_schema d1 = Inr d1"
    by (simp add: ensure_schema_def create_jobs_twice)
  show "\<exists>d1. ensure_db d = Inr d1 \<and> ensure_db d1 = Inr d1"
    using ensure_db_twice [of d] by (simp add: ensure_db_def)
  show "\<forall>d1. ensure_score_column d = Inr d1 \<longrightarrow> ensure_score_column d1 = Inr d1"
    using ensure_score_column_twice by blast
  show "jobs d \<noteq> None \<longrightarrow> (\<exists>d1. ensure_score_column d = Inr d1)"
    using ensure_score_column_succeeds by blast
qed

lemma id_col_update_row [simp]: "id_col (update_row v r) = id_col r"
  by (simp add: update_row_def)

lemma id_col_insert_row [simp]: "id_col (insert_row s v) = b_id v"
  by (simp add: insert_row_def)



lemma has_id_None [simp]: "\<not> has_id rs None"
  by (simp add: has_id_def)



















text \<open>
  C3 at a failing input: on the table that \<open>fetch_jobs.ensure_schema\<close> creates in an
  empty database, two postings with different ids and the same url are both stored;
  on the table of \<open>cli.ensure_db\<close> the second one raises and one row is stored.
\<close>

theorem fetch_schema_duplicate_url:
  "ensure_schema empty_db = Inr fetch_db
   \<and> map url_col (jobs_rows (upsert_calls fetch_db
          [example_posting ''a'' ''u1'', example_posting ''b'' ''u1''])) = [Some ''u1'', Some ''u1'']
   \<and> ensure_db empty_db = Inr cli_db
   \<and> map url_col (jobs_rows (upsert_calls cli_db
          [example_posting ''a'' ''u1'', example_posting ''b'' ''u1''])) = [Some ''u1'']"
  by (simp add: ensure_schema_def ensure_db_def create_jobs_if_not_exists_def
      create_applications_if_not_exists_def empty_db_def fetch_db_def cli_db_def
      example_posting_def jobs_rows_def upsert_def bind_params_def and_then_def
      insert_on_conflict_update_def url_conflict_def has_id_def insert_row_def)

theorem schema_creation_idempotent_witness:
  "jobs two_jobs_db \<noteq> None
   \<and> ensure_schema two_jobs_db = Inr two_jobs_db
   \<and> ensure_db two_jobs_db = Inr two_jobs_db
   \<and> ensure_score_column two_jobs_db = Inr two_jobs_db
   \<and> ensure_score_column fetch_db
       = Inr \<lparr>jobs = Some \<lparr>schema = FetchSchemaScored, rows = []\<rparr>, applications = None\<rparr>
   \<and> ensure_score_column
         \<lparr>jobs = Some \<lparr>schema = FetchSchemaScored, rows = []\<rparr>, applications = None\<rparr>
       = Inr \<lparr>jobs = Some \<lparr>schema = FetchSchemaScored, rows = []\<rparr>, applications = None\<rparr>"
  using schema_creation_idempotent [of two_jobs_db] schema_creation_idempotent [of fetch_db]
  by (simp add: two_jobs_db_def fetch_db_def ensure_schema_def ensure_db_def
      ensure_score_column_def table_info_def add_score_column_def
      create_jobs_if_not_exists_def create_applications_if_not_exists_def)

section \<open>Properties of \_pick\_valid\_upload\<close>





section \<open>Properties of the fetchers\<close>

lemma store_console: "console (snd (store n j st)) = console st"
  by (simp add: store_def split: sum.splits)

lemma for_each_store_console: "console (snd (for_each (store n) js st)) = console st"
proof (induction js arbitrary: st)
  case Nil
  then show ?case by simp
next
  case (Cons j js)
  obtain r st' where s: "store n j st = (r, st')" by (cases "store n j st")
  then have "console st' = console st" using store_console [of n j st] by simp
  with Cons.IH [of st'] s show ?case by (cases r) simp_all
qed

lemma fetch_body_console: "console (snd (fetch_body got n st)) = console st"
  by (simp add: fetch_body_def for_each_store_console split: sum.splits option.splits)

lemma for_each_total:
  assumes "\<And>x s. fst (f x s) = Inr ()"
  shows "for_each f xs s = (Inr (), foldl (\<lambda>s x. snd (f x s)) s xs)"
proof (induction xs arbitrary: s)
  case Nil
  then show ?case by simp
next
  case (Cons x xs)
  obtain r s' where f: "f x s = (r, s')" by (cases "f x s")
  with assms [of x s] have "r = Inr ()" by simp
  with Cons.IH [of s'] f show ?case by simp
qed

lemma fetch_greenhouse_returns: "fst (fetch_greenhouse net ck org st) = Inr ()"
  by (simp add: fetch_greenhouse_def split: prod.splits sum.splits)

lemma lever_loop_returns: "fst (lever_loop net ck org urls last_err st) = Inr ()"
  by (induction urls arbitrary: last_err st) (auto split: prod.splits sum.splits option.splits)

lemma fetch_lever_returns: "fst (fetch_lever net ck org st) = Inr ()"
  by (simp add: fetch_lever_def lever_loop_returns)

lemma fetch_greenhouse_console:
  "console (snd (fetch_greenhouse net ck org st)) =
     (case fst (fetch_body (get_greenhouse net (gh_boards org)) (\<lambda>j. normalize_gh ck j org) st) of
        Inl e \<Rightarrow> console st @ [''[greenhouse] '' @ org @ '': '' @ str_exn e]
      | Inr u \<Rightarrow> console st)"
proof -
  obtain r st' where b: "fetch_body (get_greenhouse net (gh_boards org)) (\<lambda>j. normalize_gh ck j org) st = (r, st')"
    by (cases "fetch_body (get_greenhouse net (gh_boards org)) (\<lambda>j. normalize_gh ck j org) st")
  then have "console st' = console st"
    using fetch_body_console [of "get_greenhouse net (gh_boards org)" "\<lambda>j. normalize_gh ck j org" st]
    by simp
  with b show ?thesis by (cases r) (simp_all add: fetch_greenhouse_def print_def)
qed

lemma fetch_lever_console:
  "console (snd (fetch_lever net ck org st)) =
     (case lever_pass net ck org 0 st of
        (Inr u, st1) \<Rightarrow> console st
      | (Inl e1, st1) \<Rightarrow>
          (case lever_pass net ck org 1 st1 of
             (Inr u, st2) \<Rightarrow> console st
           | (Inl e2, st2) \<Rightarrow> console st @ [''[lever] '' @ org @ '': '' @ str_exn e2]))"
proof -
  obtain r1 st1 where p1: "lever_pass net ck org 0 st = (r1, st1)"
    by (cases "lever_pass net ck org 0 st")
  obtain r2 st2 where p2: "lever_pass net ck org 1 st1 = (r2, st2)"
    by (cases "lever_pass net ck org 1 st1")
  have c1: "console st1 = console st"
    using p1 fetch_body_console [of "get_lever net (lever_posting_urls org ! 0)"
        "\<lambda>j. normalize_lever ck j org" st]
    by (simp add: lever_pass_def)
  have c2: "console st2 = console st1"
    using p2 fetch_body_console [of "get_lever net (lever_posting_urls org ! 1)"
        "\<lambda>j. normalize_lever ck j org" st1]
    by (simp add: lever_pass_def)
  show ?thesis
    using p1 p2 c1 c2
    by (cases r1; cases r2)
      (simp_all add: fetch_lever_def lever_pass_def lever_posting_urls_def print_def)
qed

text \<open>
  C6, as amended: neither fetcher raises, whatever the network, the clock and the
  database do. \<open>fetch_greenhouse\<close> prints the exception of its \<open>try\<close> block, and
  nothing when there is none. \<open>fetch_lever\<close> prints only when the passes over both
  endpoints raise, and then the exception of the second pass: a failure of the first
  pass that the second pass does not repeat is not printed. \<open>fetch_and_store\<close> goes
  through all organizations of both lists, one after the other.
\<close>

theorem fetchers_never_raise:
  "fst (fetch_greenhouse net ck org st) = Inr ()
   \<and> fst (fetch_lever net ck org st) = Inr ()
   \<and> console (snd (fetch_greenhouse net ck org st)) =
       (case fst (fetch_body (get_greenhouse net (gh_boards org)) (\<lambda>j. normalize_gh ck j org) st) of
          Inl e \<Rightarrow> console st @ [''[greenhouse] '' @ org @ '': '' @ str_exn e]
        | Inr u \<Rightarrow> console st)
   \<and> console (snd (fetch_lever net ck org st)) =
       (case lever_pass net ck org 0 st of
          (Inr u, st1) \<Rightarrow> console st
        | (Inl e1, st1) \<Rightarrow>
            (case lever_pass net ck org 1 st1 of
               (Inr u, st2) \<Rightarrow> console st
             | (Inl e2, st2) \<Rightarrow> console st @ [''[lever] '' @ org @ '': '' @ str_exn e2]))
   \<and> fetch_and_store net ck orgs_gh orgs_lever st =
       (Inr (), foldl (\<lambda>s x. snd (fetch_lever net ck x s))
                  (foldl (\<lambda>s x. snd (fetch_greenhouse net ck x s))
                     (st\<lparr>database := create_jobs_if_not_exists FetchSchema (database st)\<rparr>) orgs_gh)
                  orgs_lever)"
proof (intro conjI)
  show "fst (fetch_greenhouse net ck org st) = Inr ()" by (rule fetch_greenhouse_returns)
  show "fst (fetch_lever net ck org st) = Inr ()" by (rule fetch_lever_returns)
  show "console (snd (fetch_greenhouse net ck org st)) =
       (case fst (fetch_body (get_greenhouse net (gh_boards org)) (\<lambda>j. normalize_gh ck j org) st) of
          Inl e \<Rightarrow> console st @ [''[greenhouse] '' @ org @ '': '' @ str_exn e]
        | Inr u \<Rightarrow> console st)" by (rule fetch_greenhouse_console)
  show "console (snd (fetch_lever net ck org st)) =
       (case lever_pass net ck org 0 st of
          (Inr u, st1) \<Rightarrow> console st
        | (Inl e1, st1) \<Rightarrow>
            (case lever_pass net ck org 1 st1 of
               (Inr u, st2) \<Rightarrow> console st
             | (Inl e2, st2) \<Rightarrow> console st @ [''[lever] '' @ org @ '': '' @ str_exn e2]))"
    by (rule fetch_lever_console)
  show "fetch_and_store net ck orgs_gh orgs_lever st =
       (Inr (), foldl (\<lambda>s x. snd (fetch_lever net ck x s))
                  (foldl (\<lambda>s x. snd (fetch_greenhouse net ck x s))
                     (st\<lparr>database := create_jobs_if_not_exists FetchSchema (database st)\<rparr>) orgs_gh)
                  orgs_lever)"
    by (simp add: fetch_and_store_def ensure_schema_def
        for_each_total [of "fetch_greenhouse net ck", OF fetch_greenhouse_returns]
        for_each_total [of "fetch_lever net ck", OF fetch_lever_returns])
qed

theorem fetchers_never_raise_witness:
  "fetch_and_store example_network example_clock [''stripe'', ''notion''] [''acme''] example_state
     = (Inr (),
        \<lparr>database = cli_db\<lparr>jobs := Some \<lparr>schema = CliSchema, rows =
             [(example_row ''greenhouse:notion:7'' ''https://boards.greenhouse.io/notion/jobs/7'')
                \<lparr>company_col := Some ''notion''\<rparr>]\<rparr>\<rparr>,
         console = [''[greenhouse] stripe: 503 Service Unavailable'']\<rparr>)"
  using fetchers_never_raise [of example_network example_clock "''stripe''" example_state
      "[''stripe'', ''notion'']" "[''acme'']"]
  by (simp add: example_network_def example_clock_def example_state_def cli_db_def
      example_row_def example_gh_job_def example_lever_job_def
      fetch_greenhouse_def fetch_lever_def lever_pass_def lever_posting_urls_def gh_boards_def
      fetch_body_def store_def normalize_gh_def normalize_lever_def to_iso_utc_str_def
      to_iso_utc_num_def py_or_def print_def upsert_def bind_params_def and_then_def param_of_def
       insert_on_conflict_update_def
      url_conflict_def has_id_def insert_row_def create_jobs_if_not_exists_def)

text \<open>
  C6 as stated fails: the first endpoint of Lever returns a posting without id, so the
  first pass raises \<open>KeyError\<close>; the second endpoint returns the empty list, and
  \<open>fetch_lever\<close> returns without printing anything.
\<close>

theorem lever_failure_not_printed_counterexample:
  "fst (lever_pass example_network example_clock ''acme'' 0 example_state) = Inl (KeyError ''id'')
   \<and> fetch_lever example_network example_clock ''acme'' example_state = (Inr (), example_state)
   \<and> console example_state = []"
  by (simp add: example_network_def example_clock_def example_state_def
      example_lever_job_def lever_pass_def fetch_lever_def lever_posting_urls_def
      fetch_body_def store_def normalize_lever_def)

section \<open>Properties of the lookups and of the conversion\<close>
















section \<open>Properties of the upload routine\<close>

lemma trace_emit [simp]: "trace (emit e ss) = trace ss @ [e]"
  by (simp add: emit_def)

lemma page_emit [simp]: "page (emit e ss) = page ss"
  by (simp add: emit_def)

lemma known_stage_Nil: "known_stage k [] False []"
  by (simp add: known_stage_def)

lemma known_stage_fail:
  assumes "known_stage k sels b evs"
  shows "known_stage k (sel # sels) b (TryKnown k sel False # evs)"
proof -
  from assms obtain failed where
    e: "evs = map (\<lambda>sel. TryKnown k sel False) failed
                     @ (if b then [TryKnown k (sels ! length failed) True] else [])"
    and c: "if b then length failed < length sels \<and> failed = take (length failed) sels
                  else failed = sels"
    by (auto simp: known_stage_def)
  let ?f = "sel # failed"
  have "TryKnown k sel False # evs = map (\<lambda>sel. TryKnown k sel False) ?f
                     @ (if b then [TryKnown k ((sel # sels) ! length ?f) True] else [])"
    using e by simp
  moreover have "if b then length ?f < length (sel # sels) \<and> ?f = take (length ?f) (sel # sels)
                  else ?f = sel # sels"
    using c by (auto split: if_splits)
  ultimately show ?thesis unfolding known_stage_def by blast
qed

lemma known_stage_success: "known_stage k (sel # sels) True [TryKnown k sel True]"
  unfolding known_stage_def by (rule exI [of _ "[]"]) simp

lemma known_loop_stage:
  "known_loop pw k path sels ss = (b, ss') \<Longrightarrow>
     \<exists>evs. trace ss' = trace ss @ evs \<and> known_stage k sels b evs"
proof (induction sels arbitrary: ss)
  case Nil
  then show ?case by (auto simp: known_stage_Nil)
next
  case (Cons sel sels)
  have fail: "\<exists>evs. trace ss' = trace ss @ evs \<and> known_stage k (sel # sels) b evs"
    if "known_loop pw k path sels (emit (TryKnown k sel False) (ss\<lparr>page := p\<rparr>)) = (b, ss')" for p
  proof -
    from Cons.IH [OF that] obtain evs where
      "trace ss' = trace ss @ TryKnown k sel False # evs" "known_stage k sels b evs"
      by auto
    then show ?thesis using known_stage_fail by blast
  qed
  have same: "ss\<lparr>page := page ss\<rparr> = ss" by simp
  show ?case
  proof (cases "count_first pw sel (page ss)")
    case (Inl e)
    with Cons.prems fail [of "page ss"] same show ?thesis by simp
  next
    case (Inr n)
    show ?thesis
    proof (cases "n > 0")
      case False
      with Inr Cons.prems fail [of "page ss"] same show ?thesis by simp
    next
      case True
      obtain r p where s: "set_input_files_first pw sel path (page ss) = (r, p)"
        by (cases "set_input_files_first pw sel path (page ss)")
      show ?thesis
      proof (cases r)
        case (Inl e)
        with Inr True s Cons.prems fail [of p] show ?thesis by simp
      next
        case (Inr u)
        with \<open>count_first pw sel (page ss) = Inr n\<close> True s Cons.prems
        have "b = True" "ss' = emit (TryKnown k sel True) (ss\<lparr>page := p\<rparr>)" by simp_all
        then show ?thesis using known_stage_success by auto
      qed
    qed
  qed
qed


lemma try_upload_known_stage:
  assumes "try_upload_known pw k path ss = (b, ss')"
  shows "\<exists>evs. trace ss' = trace ss @ evs
           \<and> (if given path then known_stage k (FILE_SELECTORS k) b evs else evs = [] \<and> \<not> b)"
proof (cases "given path")
  case False
  with assms show ?thesis
    by (auto simp: try_upload_known_def given_def split: option.splits if_splits)
next
  case True
  then obtain p where "path = Some p" "p \<noteq> []"
    by (auto simp: given_def split: option.splits)
  with assms have "known_loop pw k p (FILE_SELECTORS k) ss = (b, ss')"
    by (simp add: try_upload_known_def)
  from known_loop_stage [OF this] True show ?thesis by simp
qed

lemma click_trace:
  "trace (click_possible_attach_buttons pw cues ss) = trace ss @ map ClickCue cues"
  by (induction cues arbitrary: ss) (simp_all add: Let_def)

lemma upload_nth_trace:
  assumes "upload_nth pw ev i path False ss = (b, ss')"
  shows "trace ss' = trace ss @ [ev b]"
  using assms by (auto simp: upload_nth_def split: prod.splits sum.splits)

lemma upload_by_attr_stage:
  assumes "upload_by_attr pw k path inputs before ss = (after, ss')"
  shows "\<exists>evs. trace ss' = trace ss @ evs \<and> attr_stage k path inputs before after evs"
proof (cases "given path \<and> \<not> before \<and> pick (kind_pattern k) inputs \<noteq> None")
  case False
  with assms have "after = before" "ss' = ss"
    by (auto simp: upload_by_attr_def given_def split: option.splits if_splits)
  then show ?thesis by (simp add: attr_stage_def)
next
  case True
  then obtain p tgt where p: "path = Some p" "p \<noteq> []" "\<not> before"
    and t: "pick (kind_pattern k) inputs = Some tgt"
    by (auto simp: given_def split: option.splits)
  with assms have "upload_nth pw (TryAttr k (idx tgt)) (idx tgt) p False ss = (after, ss')"
    by (simp add: upload_by_attr_def)
  from upload_nth_trace [OF this] True t show ?thesis
    by (auto simp: attr_stage_def)
qed

lemma upload_by_position_stage:
  assumes "upload_by_position pw k path inputs before ss = (after, ss')"
  shows "\<exists>evs. trace ss' = trace ss @ evs \<and> positional_stage k path inputs before after evs"
proof (cases "given path \<and> \<not> before \<and> position k < length inputs")
  case False
  with assms have "after = before" "ss' = ss"
    by (auto simp: upload_by_position_def given_def split: option.splits if_splits)
  then show ?thesis by (simp add: positional_stage_def)
next
  case True
  then obtain p where p: "path = Some p" "p \<noteq> []" "\<not> before"
    by (auto simp: given_def split: option.splits)
  with assms True
  have "upload_nth pw (TryPositional k (position k)) (position k) p False ss = (after, ss')"
    by (simp add: upload_by_position_def)
  from upload_nth_trace [OF this] True show ?thesis
    by (auto simp: positional_stage_def)
qed


lemma upload_shape:
  assumes u: "upload_best_effort pw rp cp ss = (result, ss')"
  shows "\<exists>K1 K2 C R kr kc. trace ss' = trace ss @ K1 @ K2 @ C @ R
     \<and> (if given rp then known_stage Resume (FILE_SELECTORS Resume) kr K1 else K1 = [] \<and> \<not> kr)
     \<and> (if given cp then known_stage Cover (FILE_SELECTORS Cover) kc K2 else K2 = [] \<and> \<not> kc)
     \<and> (C = [] \<or> (C = map ClickCue BUTTON_CUES \<and> ((given rp \<and> \<not> kr) \<or> (given cp \<and> \<not> kc))))
     \<and> (case result of
          Inl e \<Rightarrow> R = []
        | Inr (ur, uc) \<Rightarrow>
            (\<exists>inputs A1 A2 P1 P2 ar ac. R = Scan inputs # A1 @ A2 @ P1 @ P2
               \<and> attr_stage Resume rp inputs kr ar A1 \<and> attr_stage Cover cp inputs kc ac A2
               \<and> positional_stage Resume rp inputs ar ur P1
               \<and> positional_stage Cover cp inputs ac uc P2))"
proof -
  obtain kr ss1 where k1: "try_upload_known pw Resume rp ss = (kr, ss1)"
    by (cases "try_upload_known pw Resume rp ss")
  obtain kc ss2 where k2: "try_upload_known pw Cover cp ss1 = (kc, ss2)"
    by (cases "try_upload_known pw Cover cp ss1")
  define need where "need = ((given rp \<and> \<not> kr) \<or> (given cp \<and> \<not> kc))"
  define ss3 where "ss3 = (if need then click_possible_attach_buttons pw BUTTON_CUES ss2 else ss2)"
  from try_upload_known_stage [OF k1] obtain K1 where
    K1: "trace ss1 = trace ss @ K1"
      "if given rp then known_stage Resume (FILE_SELECTORS Resume) kr K1 else K1 = [] \<and> \<not> kr"
    by blast
  from try_upload_known_stage [OF k2] obtain K2 where
    K2: "trace ss2 = trace ss1 @ K2"
      "if given cp then known_stage Cover (FILE_SELECTORS Cover) kc K2 else K2 = [] \<and> \<not> kc"
    by blast
  define C where "C = (if need then map ClickCue BUTTON_CUES else [])"
  have C: "trace ss3 = trace ss2 @ C"
    by (simp add: ss3_def C_def click_trace)
  have Cc: "C = [] \<or> (C = map ClickCue BUTTON_CUES \<and> ((given rp \<and> \<not> kr) \<or> (given cp \<and> \<not> kc)))"
    by (simp add: C_def need_def)
  show ?thesis
  proof (cases "scan_file_inputs pw (page ss3)")
    case (Inl e)
    with u k1 k2 have "result = Inl e" "ss' = ss3"
      by (simp_all add: upload_best_effort_def Let_def ss3_def need_def)
    then have "trace ss' = trace ss @ K1 @ K2 @ C @ []" "case result of Inl e \<Rightarrow> [] = ([] :: event list) | Inr x \<Rightarrow> False"
      using K1(1) K2(1) C by simp_all
    with K1(2) K2(2) Cc \<open>result = Inl e\<close> show ?thesis
      by (intro exI [of _ K1] exI [of _ K2] exI [of _ C] exI [of _ "[]"] exI [of _ kr] exI [of _ kc])
        simp
  next
    case (Inr inputs)
    obtain ar ss5 where a1: "upload_by_attr pw Resume rp inputs kr (emit (Scan inputs) ss3) = (ar, ss5)"
      by (cases "upload_by_attr pw Resume rp inputs kr (emit (Scan inputs) ss3)")
    obtain ac ss6 where a2: "upload_by_attr pw Cover cp inputs kc ss5 = (ac, ss6)"
      by (cases "upload_by_attr pw Cover cp inputs kc ss5")
    obtain ur ss7 where p1: "upload_by_position pw Resume rp inputs ar ss6 = (ur, ss7)"
      by (cases "upload_by_position pw Resume rp inputs ar ss6")
    obtain uc ss8 where p2: "upload_by_position pw Cover cp inputs ac ss7 = (uc, ss8)"
      by (cases "upload_by_position pw Cover cp inputs ac ss7")
    from u k1 k2 Inr a1 a2 p1 p2 have r: "result = Inr (ur, uc)" "ss' = ss8"
      by (simp_all add: upload_best_effort_def Let_def ss3_def need_def)
    from upload_by_attr_stage [OF a1] obtain A1 where
      A1: "trace ss5 = trace ss3 @ Scan inputs # A1" "attr_stage Resume rp inputs kr ar A1"
      by auto
    from upload_by_attr_stage [OF a2] obtain A2 where
      A2: "trace ss6 = trace ss5 @ A2" "attr_stage Cover cp inputs kc ac A2"
      by auto
    from upload_by_position_stage [OF p1] obtain P1 where
      P1: "trace ss7 = trace ss6 @ P1" "positional_stage Resume rp inputs ar ur P1"
      by auto
    from upload_by_position_stage [OF p2] obtain P2 where
      P2: "trace ss8 = trace ss7 @ P2" "positional_stage Cover cp inputs ac uc P2"
      by auto
    have t: "trace ss' = trace ss @ K1 @ K2 @ C @ (Scan inputs # A1 @ A2 @ P1 @ P2)"
      using r K1(1) K2(1) C A1(1) A2(1) P1(1) P2(1) by simp
    have "\<exists>inputs' A1' A2' P1' P2' ar' ac'.
            Scan inputs # A1 @ A2 @ P1 @ P2 = Scan inputs' # A1' @ A2' @ P1' @ P2'
            \<and> attr_stage Resume rp inputs' kr ar' A1' \<and> attr_stage Cover cp inputs' kc ac' A2'
            \<and> positional_stage Resume rp inputs' ar' ur P1'
            \<and> positional_stage Cover cp inputs' ac' uc P2'"
      using A1(2) A2(2) P1(2) P2(2) by blast
    with t K1(2) K2(2) Cc r(1) show ?thesis
      by (intro exI [of _ K1] exI [of _ K2] exI [of _ C]
          exI [of _ "Scan inputs # A1 @ A2 @ P1 @ P2"] exI [of _ kr] exI [of _ kc])
        simp
  qed
qed


lemma succeeded_about: "succeeded k e \<Longrightarrow> about k e"
  by (cases e) auto

lemma no_retry_no_about: "\<not> list_ex (about k) es \<Longrightarrow> no_retry k es"
  by (induction es) (auto dest: succeeded_about)

lemma no_retry_append:
  "no_retry k (a @ b) \<longleftrightarrow>
     no_retry k a \<and> no_retry k b \<and> (list_ex (succeeded k) a \<longrightarrow> \<not> list_ex (about k) b)"
  by (induction a) (auto simp: list_ex_iff)

lemma known_selectors_append:
  "known_selectors k (a @ b) = known_selectors k a @ known_selectors k b"
  by (induction k a rule: known_selectors.induct) auto

lemma flag_stage_neutral: "\<not> list_ex (about k) evs \<Longrightarrow> flag_stage k b b evs"
  by (auto simp: flag_stage_def no_retry_no_about list_ex_iff dest: succeeded_about)

lemma flag_stage_append:
  assumes "flag_stage k a b S" and "flag_stage k b c T"
  shows "flag_stage k a c (S @ T)"
  using assms by (auto simp: flag_stage_def no_retry_append)

lemma known_selectors_failed:
  "known_selectors k (map (\<lambda>sel. TryKnown k sel False) failed) = failed"
  by (induction failed) auto

lemma no_retry_failed: "no_retry k (map (\<lambda>sel. TryKnown k0 sel False) failed @ rest) = no_retry k rest"
  by (induction failed) auto

lemma known_stage_props:
  assumes "known_stage k0 sels b evs"
  shows "\<forall>e \<in> set evs. \<exists>sel c. e = TryKnown k0 sel c"
    and "flag_stage k0 False b evs"
    and "prefix (known_selectors k0 evs) sels"
    and "(\<exists>sel. TryKnown k0 sel True \<in> set evs) = b"
proof -
  from assms obtain failed where
    e: "evs = map (\<lambda>sel. TryKnown k0 sel False) failed
                     @ (if b then [TryKnown k0 (sels ! length failed) True] else [])"
    and c: "if b then length failed < length sels \<and> failed = take (length failed) sels
                  else failed = sels"
    by (auto simp: known_stage_def)
  show "\<forall>e \<in> set evs. \<exists>sel c. e = TryKnown k0 sel c"
    using e by auto
  have s: "list_ex (succeeded k0) evs = b"
    using e by (auto simp: list_ex_iff)
  have "no_retry k0 evs"
    unfolding e no_retry_failed by simp
  then show "flag_stage k0 False b evs"
    using s by (simp add: flag_stage_def)
  show "prefix (known_selectors k0 evs) sels"
  proof (cases b)
    case False
    with e c show ?thesis by (simp add: known_selectors_failed)
  next
    case True
    with c have l: "length failed < length sels" and f: "failed = take (length failed) sels"
      by simp_all
    have "known_selectors k0 evs = failed @ [sels ! length failed]"
      using e True by (simp add: known_selectors_append known_selectors_failed)
    also have "\<dots> = take (Suc (length failed)) sels"
      using l f by (metis take_Suc_conv_app_nth)
    finally show ?thesis by (simp add: take_is_prefix)
  qed
  show "(\<exists>sel. TryKnown k0 sel True \<in> set evs) = b"
    using e by auto
qed

lemma known_selectors_other:
  assumes "\<forall>e \<in> set evs. \<not> (\<exists>sel c. e = TryKnown k sel c)"
  shows "known_selectors k evs = []"
  using assms by (induction k evs rule: known_selectors.induct) auto


lemma attr_stage_props:
  assumes "attr_stage k0 path inputs before after evs"
  shows "flag_stage k0 before after evs"
    and "\<forall>e \<in> set evs. \<exists>i c. e = TryAttr k0 i c \<and> given path
            \<and> (\<exists>tgt. pick (kind_pattern k0) inputs = Some tgt \<and> idx tgt = i)"
  using assms by (auto simp: attr_stage_def flag_stage_def)

lemma positional_stage_props:
  assumes "positional_stage k0 path inputs before after evs"
  shows "flag_stage k0 before after evs"
    and "\<forall>e \<in> set evs. \<exists>c. e = TryPositional k0 (position k0) c \<and> given path
            \<and> position k0 < length inputs"
  using assms by (auto simp: positional_stage_def flag_stage_def)

lemma known_or_empty_props:
  assumes "if given path then known_stage k0 (FILE_SELECTORS k0) b evs else evs = [] \<and> \<not> b"
  shows "\<forall>e \<in> set evs. \<exists>sel c. e = TryKnown k0 sel c \<and> given path"
    and "flag_stage k0 False b evs"
    and "prefix (known_selectors k0 evs) (FILE_SELECTORS k0)"
    and "(\<exists>sel. TryKnown k0 sel True \<in> set evs) = b"
proof -
  show "\<forall>e \<in> set evs. \<exists>sel c. e = TryKnown k0 sel c \<and> given path"
    using assms known_stage_props(1) [of k0 "FILE_SELECTORS k0" b evs]
    by (cases "given path") auto
  show "flag_stage k0 False b evs"
    using assms known_stage_props(2) [of k0 "FILE_SELECTORS k0" b evs]
    by (cases "given path") (auto simp: flag_stage_def)
  show "prefix (known_selectors k0 evs) (FILE_SELECTORS k0)"
    using assms known_stage_props(3) [of k0 "FILE_SELECTORS k0" b evs]
    by (cases "given path") auto
  show "(\<exists>sel. TryKnown k0 sel True \<in> set evs) = b"
    using assms known_stage_props(4) [of k0 "FILE_SELECTORS k0" b evs]
    by (cases "given path") auto
qed

lemma sorted_rank_append:
  assumes "\<forall>e \<in> set S. rank e \<le> r" and "\<forall>e \<in> set T. r \<le> rank e"
    and "sorted (map rank S)" and "sorted (map rank T)"
  shows "sorted (map rank (S @ T))"
  using assms by (fastforce simp: sorted_append)

lemma sorted_rank_const: "\<forall>e \<in> set S. rank e = r \<Longrightarrow> sorted (map rank S)"
  by (induction S) auto

lemma upload_segments:
  assumes u: "upload_best_effort pw rp cp ss = (result, ss')"
  shows "\<exists>K1 K2 C S A1 A2 P1 P2 kr kc ar ac ur uc inputs.
       trace ss' = trace ss @ K1 @ K2 @ C @ S @ A1 @ A2 @ P1 @ P2
     \<and> (if given rp then known_stage Resume (FILE_SELECTORS Resume) kr K1 else K1 = [] \<and> \<not> kr)
     \<and> (if given cp then known_stage Cover (FILE_SELECTORS Cover) kc K2 else K2 = [] \<and> \<not> kc)
     \<and> (C = [] \<or> (C = map ClickCue BUTTON_CUES \<and> ((given rp \<and> \<not> kr) \<or> (given cp \<and> \<not> kc))))
     \<and> (S = [Scan inputs] \<or> (S = [] \<and> A1 = [] \<and> A2 = [] \<and> P1 = [] \<and> P2 = []))
     \<and> attr_stage Resume rp inputs kr ar A1 \<and> attr_stage Cover cp inputs kc ac A2
     \<and> positional_stage Resume rp inputs ar ur P1
     \<and> positional_stage Cover cp inputs ac uc P2
     \<and> (\<forall>x y. result = Inr (x, y) \<longrightarrow> x = ur \<and> y = uc)"
proof -
  from upload_shape [OF u] obtain K1 K2 C R kr kc where
    t: "trace ss' = trace ss @ K1 @ K2 @ C @ R"
    and k1: "if given rp then known_stage Resume (FILE_SELECTORS Resume) kr K1 else K1 = [] \<and> \<not> kr"
    and k2: "if given cp then known_stage Cover (FILE_SELECTORS Cover) kc K2 else K2 = [] \<and> \<not> kc"
    and c: "C = [] \<or> (C = map ClickCue BUTTON_CUES \<and> ((given rp \<and> \<not> kr) \<or> (given cp \<and> \<not> kc)))"
    and r: "case result of
          Inl e \<Rightarrow> R = []
        | Inr (ur, uc) \<Rightarrow>
            (\<exists>inputs A1 A2 P1 P2 ar ac. R = Scan inputs # A1 @ A2 @ P1 @ P2
               \<and> attr_stage Resume rp inputs kr ar A1 \<and> attr_stage Cover cp inputs kc ac A2
               \<and> positional_stage Resume rp inputs ar ur P1
               \<and> positional_stage Cover cp inputs ac uc P2)"
    by blast
  show ?thesis
  proof (cases result)
    case (Inl e)
    with r have R: "R = []" by simp
    have a: "attr_stage Resume rp [] kr kr []" "attr_stage Cover cp [] kc kc []"
      "positional_stage Resume rp [] kr kr []" "positional_stage Cover cp [] kc kc []"
      by (simp_all add: attr_stage_def positional_stage_def)
    have s: "([] :: event list) = [Scan []] \<or> (([] :: event list) = [] \<and> ([] :: event list) = []
        \<and> ([] :: event list) = [] \<and> ([] :: event list) = [] \<and> ([] :: event list) = [])"
      by simp
    have "trace ss' = trace ss @ K1 @ K2 @ C @ [] @ [] @ [] @ [] @ []"
      using t R by simp
    moreover have "\<forall>x y. result = Inr (x, y) \<longrightarrow> x = kr \<and> y = kc"
      using Inl by simp
    ultimately show ?thesis
      using k1 k2 c a s by blast
  next
    case (Inr p)
    obtain ur uc where p: "p = (ur, uc)" by (cases p)
    with r Inr obtain inputs A1 A2 P1 P2 ar ac where
      R: "R = Scan inputs # A1 @ A2 @ P1 @ P2"
      and a: "attr_stage Resume rp inputs kr ar A1" "attr_stage Cover cp inputs kc ac A2"
        "positional_stage Resume rp inputs ar ur P1" "positional_stage Cover cp inputs ac uc P2"
      by auto
    have "trace ss' = trace ss @ K1 @ K2 @ C @ [Scan inputs] @ A1 @ A2 @ P1 @ P2"
      using t R by simp
    moreover have "\<forall>x y. result = Inr (x, y) \<longrightarrow> x = ur \<and> y = uc"
      using Inr p by simp
    moreover have "[Scan inputs] = [Scan inputs] \<or> ([Scan inputs] = [] \<and> A1 = [] \<and> A2 = [] \<and> P1 = [] \<and> P2 = [])"
      by simp
    ultimately show ?thesis
      using k1 k2 c a by blast
  qed
qed


lemma segments_flag:
  assumes K: "flag_stage k False b1 K" and N1: "\<not> list_ex (about k) N1"
    and A: "flag_stage k b1 b2 A" and N2: "\<not> list_ex (about k) N2"
    and P: "flag_stage k b2 b3 P" and N3: "\<not> list_ex (about k) N3"
  shows "flag_stage k False b3 (K @ N1 @ A @ N2 @ P @ N3)"
  using flag_stage_append [OF K flag_stage_append [OF flag_stage_neutral [OF N1]
        flag_stage_append [OF A flag_stage_append [OF flag_stage_neutral [OF N2]
        flag_stage_append [OF P flag_stage_neutral [OF N3]]]]]]
  by simp

text \<open>
  C4: the events of the upload routine come in the order of the strategies (known
  selectors, clicks, scan and upload by attributes, positional fallback). For each
  kind: nothing is attempted when no file is given or after an attempt that succeeded;
  the known selectors are tried in the order of \<open>FILE_SELECTORS\<close>, from the first
  on; the upload by attributes goes to the input that \<open>pick\<close> finds in the scan; the
  positional fallback goes to the first input for the resume and to the second for the
  cover letter, and only when the scan found that many inputs. Buttons are clicked only
  when a kind with a file was not uploaded by a known selector. The flags returned say
  whether an attempt for the kind succeeded.
\<close>

theorem upload_strategy_order:
  assumes u: "upload_best_effort pw resume_path cover_path ss = (result, ss')"
  shows "\<exists>evs. trace ss' = trace ss @ evs
     \<and> sorted (map rank evs)
     \<and> (\<forall>k. no_retry k evs
            \<and> prefix (known_selectors k evs) (FILE_SELECTORS k)
            \<and> (list_ex (about k) evs \<longrightarrow> given (path_of k resume_path cover_path))
            \<and> (\<forall>i b. TryAttr k i b \<in> set evs \<longrightarrow>
                  (\<exists>inputs tgt. Scan inputs \<in> set evs
                     \<and> pick (kind_pattern k) inputs = Some tgt \<and> idx tgt = i))
            \<and> (\<forall>i b. TryPositional k i b \<in> set evs \<longrightarrow>
                  i = position k
                  \<and> (\<exists>inputs. Scan inputs \<in> set evs \<and> position k < length inputs)))
     \<and> ((\<exists>cue. ClickCue cue \<in> set evs) \<longrightarrow>
          (\<exists>k. given (path_of k resume_path cover_path)
              \<and> \<not> (\<exists>sel. TryKnown k sel True \<in> set evs)))
     \<and> (\<forall>ur uc. result = Inr (ur, uc) \<longrightarrow>
          ur = list_ex (succeeded Resume) evs \<and> uc = list_ex (succeeded Cover) evs)"
proof -
  from upload_segments [OF u] obtain K1 K2 C S A1 A2 P1 P2 kr kc ar ac ur uc inputs where
    t: "trace ss' = trace ss @ K1 @ K2 @ C @ S @ A1 @ A2 @ P1 @ P2"
    and k1: "if given resume_path then known_stage Resume (FILE_SELECTORS Resume) kr K1
             else K1 = [] \<and> \<not> kr"
    and k2: "if given cover_path then known_stage Cover (FILE_SELECTORS Cover) kc K2
             else K2 = [] \<and> \<not> kc"
    and c: "C = [] \<or> (C = map ClickCue BUTTON_CUES
              \<and> ((given resume_path \<and> \<not> kr) \<or> (given cover_path \<and> \<not> kc)))"
    and s: "S = [Scan inputs] \<or> (S = [] \<and> A1 = [] \<and> A2 = [] \<and> P1 = [] \<and> P2 = [])"
    and a1: "attr_stage Resume resume_path inputs kr ar A1"
    and a2: "attr_stage Cover cover_path inputs kc ac A2"
    and p1: "positional_stage Resume resume_path inputs ar ur P1"
    and p2: "positional_stage Cover cover_path inputs ac uc P2"
    and res: "\<forall>x y. result = Inr (x, y) \<longrightarrow> x = ur \<and> y = uc"
    by blast
  define evs where "evs = K1 @ K2 @ C @ S @ A1 @ A2 @ P1 @ P2"
  note K1 = known_or_empty_props [OF k1]
  note K2 = known_or_empty_props [OF k2]
  note A1 = attr_stage_props [OF a1]
  note A2 = attr_stage_props [OF a2]
  note P1 = positional_stage_props [OF p1]
  note P2 = positional_stage_props [OF p2]
  have Cf: "\<forall>e \<in> set C. \<exists>cue. e = ClickCue cue" using c by auto
  have Sf: "\<forall>e \<in> set S. e = Scan inputs" using s by auto
  \<comment> \<open>ranks\<close>
  have rK1: "\<forall>e \<in> set K1. rank e = 0" using K1(1) by fastforce
  have rK2: "\<forall>e \<in> set K2. rank e = 0" using K2(1) by fastforce
  have rC: "\<forall>e \<in> set C. rank e = 1" using Cf by fastforce
  have rS: "\<forall>e \<in> set S. rank e = 2" using Sf by fastforce
  have rA1: "\<forall>e \<in> set A1. rank e = 2" using A1(2) by fastforce
  have rA2: "\<forall>e \<in> set A2. rank e = 2" using A2(2) by fastforce
  have rP1: "\<forall>e \<in> set P1. rank e = 3" using P1(2) by fastforce
  have rP2: "\<forall>e \<in> set P2. rank e = 3" using P2(2) by fastforce
  have r0: "\<forall>e \<in> set (K1 @ K2). rank e = 0" using rK1 rK2 by auto
  have r2: "\<forall>e \<in> set (S @ A1 @ A2). rank e = 2" using rS rA1 rA2 by auto
  have r3: "\<forall>e \<in> set (P1 @ P2). rank e = 3" using rP1 rP2 by auto
  have le2: "\<forall>e \<in> set (S @ A1 @ A2). rank e \<le> 2" using r2 by simp
  have ge2: "\<forall>e \<in> set (P1 @ P2). 2 \<le> rank e" using r3 by simp
  have s23: "sorted (map rank ((S @ A1 @ A2) @ (P1 @ P2)))"
    by (rule sorted_rank_append [OF le2 ge2 sorted_rank_const [OF r2] sorted_rank_const [OF r3]])
  have le1: "\<forall>e \<in> set C. rank e \<le> 1" using rC by simp
  have ge1: "\<forall>e \<in> set ((S @ A1 @ A2) @ (P1 @ P2)). 1 \<le> rank e" using r2 r3 by auto
  have s123: "sorted (map rank (C @ (S @ A1 @ A2) @ (P1 @ P2)))"
    by (rule sorted_rank_append [OF le1 ge1 sorted_rank_const [OF rC] s23])
  have le0: "\<forall>e \<in> set (K1 @ K2). rank e \<le> 0" using r0 by simp
  have ge0: "\<forall>e \<in> set (C @ (S @ A1 @ A2) @ (P1 @ P2)). 0 \<le> rank e" by simp
  have "sorted (map rank ((K1 @ K2) @ C @ (S @ A1 @ A2) @ (P1 @ P2)))"
    by (rule sorted_rank_append [OF le0 ge0 sorted_rank_const [OF r0] s123])
  then have sorted: "sorted (map rank evs)" by (simp add: evs_def)
  \<comment> \<open>what each stretch says about each kind\<close>
  have nR: "\<not> list_ex (about Resume) (K2 @ C @ S)" "\<not> list_ex (about Resume) A2"
    "\<not> list_ex (about Resume) P2"
    using K2(1) Cf Sf A2(2) P2(2) by (fastforce simp: list_ex_iff)+
  have nC: "\<not> list_ex (about Cover) K1" "\<not> list_ex (about Cover) (C @ S @ A1)"
    "\<not> list_ex (about Cover) P1"
    using K1(1) Cf Sf A1(2) P1(2) by (fastforce simp: list_ex_iff)+
  have fR: "flag_stage Resume False ur evs"
    using segments_flag [OF K1(2) nR(1) A1(1) nR(2) P1(1) nR(3)] by (simp add: evs_def)
  have fC0: "flag_stage Cover False ac ((K1 @ K2) @ (C @ S @ A1) @ A2)"
    using flag_stage_append [OF flag_stage_append [OF flag_stage_neutral [OF nC(1)] K2(2)]
        flag_stage_append [OF flag_stage_neutral [OF nC(2)] A2(1)]]
    by simp
  have fC: "flag_stage Cover False uc evs"
    using flag_stage_append [OF fC0 flag_stage_append [OF flag_stage_neutral [OF nC(3)] P2(1)]]
    by (simp add: evs_def)
  have no_retry: "no_retry k evs" for k
    using fR fC by (cases k) (simp_all add: flag_stage_def)
  \<comment> \<open>known selectors\<close>
  have ksR: "known_selectors Resume (K2 @ C @ S @ A1 @ A2 @ P1 @ P2) = []"
    using K2(1) Cf Sf A1(2) A2(2) P1(2) P2(2) by (intro known_selectors_other) fastforce
  have ksC: "known_selectors Cover K1 = []"
    "known_selectors Cover (C @ S @ A1 @ A2 @ P1 @ P2) = []"
    using K1(1) Cf Sf A1(2) A2(2) P1(2) P2(2) by (intro known_selectors_other; fastforce)+
  have pre: "prefix (known_selectors k evs) (FILE_SELECTORS k)" for k
  proof (cases k)
    case Resume
    have "known_selectors Resume evs = known_selectors Resume K1"
      using ksR known_selectors_append [of Resume K1 "K2 @ C @ S @ A1 @ A2 @ P1 @ P2"]
      by (simp add: evs_def)
    with K1(3) Resume show ?thesis by simp
  next
    case Cover
    have "known_selectors Cover evs = known_selectors Cover K2"
      using ksC known_selectors_append [of Cover K1 "K2 @ C @ S @ A1 @ A2 @ P1 @ P2"]
        known_selectors_append [of Cover K2 "C @ S @ A1 @ A2 @ P1 @ P2"]
      by (simp add: evs_def)
    with K2(3) Cover show ?thesis by simp
  qed
  \<comment> \<open>nothing without a file\<close>
  have giv: "list_ex (about k) evs \<longrightarrow> given (path_of k resume_path cover_path)" for k
    unfolding evs_def list_ex_iff
    using K1(1) K2(1) Cf Sf A1(2) A2(2) P1(2) P2(2)
    by (cases k) fastforce+
  \<comment> \<open>the scan is in the trace when an upload after it is\<close>
  have scan: "Scan inputs \<in> set evs" if "A1 @ A2 @ P1 @ P2 \<noteq> []"
    using that s by (auto simp: evs_def)
  have attr: "\<exists>inputs tgt. Scan inputs \<in> set evs
                 \<and> pick (kind_pattern k) inputs = Some tgt \<and> idx tgt = i"
    if m: "TryAttr k i b \<in> set evs" for k i b
  proof -
    from m have "TryAttr k i b \<in> set A1 \<or> TryAttr k i b \<in> set A2"
      using K1(1) K2(1) Cf Sf P1(2) P2(2) by (fastforce simp: evs_def)
    then have "(\<exists>tgt. pick (kind_pattern k) inputs = Some tgt \<and> idx tgt = i)
               \<and> A1 @ A2 @ P1 @ P2 \<noteq> []"
      using A1(2) A2(2) by fastforce
    with scan show ?thesis by blast
  qed
  have pos: "i = position k \<and> (\<exists>inputs. Scan inputs \<in> set evs \<and> position k < length inputs)"
    if m: "TryPositional k i b \<in> set evs" for k i b
  proof -
    from m have "TryPositional k i b \<in> set P1 \<or> TryPositional k i b \<in> set P2"
      using K1(1) K2(1) Cf Sf A1(2) A2(2) by (fastforce simp: evs_def)
    then have "i = position k \<and> position k < length inputs \<and> A1 @ A2 @ P1 @ P2 \<noteq> []"
      using P1(2) P2(2) by fastforce
    with scan show ?thesis by blast
  qed
  \<comment> \<open>clicks\<close>
  have tkR: "(\<exists>sel. TryKnown Resume sel True \<in> set evs) = kr"
    using K1(4) K2(1) Cf Sf A1(2) A2(2) P1(2) P2(2) unfolding evs_def by fastforce
  have tkC: "(\<exists>sel. TryKnown Cover sel True \<in> set evs) = kc"
    using K2(4) K1(1) Cf Sf A1(2) A2(2) P1(2) P2(2) unfolding evs_def by fastforce
  have click: "\<exists>k. given (path_of k resume_path cover_path)
                 \<and> \<not> (\<exists>sel. TryKnown k sel True \<in> set evs)"
    if m: "\<exists>cue. ClickCue cue \<in> set evs"
  proof -
    from m have "C \<noteq> []"
      using K1(1) K2(1) Sf A1(2) A2(2) P1(2) P2(2) by (fastforce simp: evs_def)
    with c have "(given resume_path \<and> \<not> kr) \<or> (given cover_path \<and> \<not> kc)" by blast
    then show ?thesis
    proof
      assume "given resume_path \<and> \<not> kr"
      with tkR have "given (path_of Resume resume_path cover_path)
          \<and> \<not> (\<exists>sel. TryKnown Resume sel True \<in> set evs)" by simp
      then show ?thesis by blast
    next
      assume "given cover_path \<and> \<not> kc"
      with tkC have "given (path_of Cover resume_path cover_path)
          \<and> \<not> (\<exists>sel. TryKnown Cover sel True \<in> set evs)" by simp
      then show ?thesis by blast
    qed
  qed
  \<comment> \<open>the flags\<close>
  have flags: "x = list_ex (succeeded Resume) evs \<and> y = list_ex (succeeded Cover) evs"
    if "result = Inr (x, y)" for x y
    using that res fR fC by (simp add: flag_stage_def)
  have "trace ss' = trace ss @ evs" using t by (simp add: evs_def)
  with sorted no_retry pre giv attr pos click flags show ?thesis
    by (intro exI [of _ evs]) blast
qed

section \<open>Properties of the text-field routine\<close>

lemma attempts_Nil: "attempts mk [] False []"
  by (simp add: attempts_def)

lemma attempts_fail:
  assumes "attempts mk xs b evs"
  shows "attempts mk (x # xs) b (mk x False # evs)"
proof -
  from assms obtain failed where
    e: "evs = map (\<lambda>x. mk x False) failed @ (if b then [mk (xs ! length failed) True] else [])"
    and c: "if b then length failed < length xs \<and> failed = take (length failed) xs
            else failed = xs"
    by (auto simp: attempts_def)
  let ?f = "x # failed"
  have "mk x False # evs = map (\<lambda>x. mk x False) ?f
                     @ (if b then [mk ((x # xs) ! length ?f) True] else [])"
    using e by simp
  moreover have "if b then length ?f < length (x # xs) \<and> ?f = take (length ?f) (x # xs)
                  else ?f = x # xs"
    using c by (auto split: if_splits)
  ultimately show ?thesis unfolding attempts_def by blast
qed

lemma attempts_success: "attempts mk (x # xs) True [mk x True]"
  unfolding attempts_def by (rule exI [of _ "[]"]) simp

lemma label_loop_attempts:
  "label_loop pw key v pats ss = (b, ss') \<Longrightarrow>
     \<exists>evs. trace ss' = trace ss @ evs \<and> attempts (ByLabel key) pats b evs"
proof (induction pats arbitrary: ss)
  case Nil
  then show ?case by (auto simp: attempts_Nil)
next
  case (Cons pat pats)
  obtain r p where f: "fill_by_label pw pat v (page ss) = (r, p)"
    by (cases "fill_by_label pw pat v (page ss)")
  show ?case
  proof (cases r)
    case (Inl e)
    with f Cons.prems
    have "label_loop pw key v pats (emit (ByLabel key pat False) (ss\<lparr>page := p\<rparr>)) = (b, ss')"
      by simp
    from Cons.IH [OF this] obtain evs where
      "trace ss' = trace ss @ ByLabel key pat False # evs" "attempts (ByLabel key) pats b evs"
      by auto
    then show ?thesis using attempts_fail [of "ByLabel key" pats b _ pat] by blast
  next
    case (Inr u)
    with f Cons.prems have "b = True" "ss' = emit (ByLabel key pat True) (ss\<lparr>page := p\<rparr>)"
      by simp_all
    then show ?thesis using attempts_success [of "ByLabel key" pat pats] by auto
  qed
qed

lemma css_loop_attempts:
  "css_loop pw key v sels ss = (b, ss') \<Longrightarrow>
     \<exists>evs. trace ss' = trace ss @ evs \<and> attempts (ByCss key) sels b evs"
proof (induction sels arbitrary: ss)
  case Nil
  then show ?case by (auto simp: attempts_Nil)
next
  case (Cons sel sels)
  have fail: "\<exists>evs. trace ss' = trace ss @ evs \<and> attempts (ByCss key) (sel # sels) b evs"
    if "css_loop pw key v sels (emit (ByCss key sel False) (ss\<lparr>page := p\<rparr>)) = (b, ss')" for p
  proof -
    from Cons.IH [OF that] obtain evs where
      "trace ss' = trace ss @ ByCss key sel False # evs" "attempts (ByCss key) sels b evs"
      by auto
    then show ?thesis using attempts_fail [of "ByCss key" sels b _ sel] by blast
  qed
  have same: "ss\<lparr>page := page ss\<rparr> = ss" by simp
  show ?case
  proof (cases "count_first pw sel (page ss)")
    case (Inl e)
    with Cons.prems fail [of "page ss"] same show ?thesis by simp
  next
    case (Inr n)
    show ?thesis
    proof (cases "n > 0")
      case False
      with Inr Cons.prems fail [of "page ss"] same show ?thesis by simp
    next
      case True
      obtain r p where s: "fill_first pw sel v (page ss) = (r, p)"
        by (cases "fill_first pw sel v (page ss)")
      show ?thesis
      proof (cases r)
        case (Inl e)
        with Inr True s Cons.prems fail [of p] show ?thesis by simp
      next
        case (Inr u)
        with \<open>count_first pw sel (page ss) = Inr n\<close> True s Cons.prems
        have "b = True" "ss' = emit (ByCss key sel True) (ss\<lparr>page := p\<rparr>)" by simp_all
        then show ?thesis using attempts_success [of "ByCss key" sel sels] by auto
      qed
    qed
  qed
qed

lemma fill_field_stage:
  assumes "fill_field pw key v ss = (filled, ss')"
  shows "\<exists>evs. trace ss' = trace ss @ evs \<and> field_stage key v filled evs"
proof (cases "v = []")
  case True
  with assms show ?thesis by (auto simp: fill_field_def field_stage_def)
next
  case False
  obtain lb ss1 where l: "label_loop pw key v (get LABEL_PATTERNS key []) ss = (lb, ss1)"
    by (cases "label_loop pw key v (get LABEL_PATTERNS key []) ss")
  from label_loop_attempts [OF l] obtain L where
    L: "trace ss1 = trace ss @ L" "attempts (ByLabel key) (get LABEL_PATTERNS key []) lb L"
    by blast
  show ?thesis
  proof (cases lb)
    case True
    with assms False l have "filled" "ss' = ss1" by (simp_all add: fill_field_def)
    with L True False show ?thesis by (auto simp: field_stage_def)
  next
    case lbF: False
    show ?thesis
    proof (cases "map_of CSS_FALLBACKS key")
      case None
      with assms False l lbF have "\<not> filled" "ss' = ss1" by (simp_all add: fill_field_def)
      moreover have "attempts (ByCss key) (get CSS_FALLBACKS key []) False []"
        using None by (simp add: get_def attempts_Nil)
      ultimately show ?thesis using L lbF False
        unfolding field_stage_def by (intro exI [of _ L]) auto
    next
      case (Some sels)
      with assms False l lbF have c: "css_loop pw key v sels ss1 = (filled, ss')"
        by (simp add: fill_field_def)
      from css_loop_attempts [OF c] obtain Cs where
        "trace ss' = trace ss1 @ Cs" "attempts (ByCss key) sels filled Cs" by blast
      moreover have "get CSS_FALLBACKS key [] = sels" using Some by (simp add: get_def)
      ultimately show ?thesis using L lbF False
        unfolding field_stage_def by (intro exI [of _ "L @ Cs"]) auto
    qed
  qed
qed

lemma fill_fields_stage:
  "\<exists>fields. trace (fill_fields pw profile keys ss) = trace ss @ concat fields
     \<and> list_all2 (\<lambda>k evs. \<exists>filled. field_stage k (get profile k []) filled evs) keys fields"
proof (induction keys arbitrary: ss)
  case Nil
  show ?case by (simp add: fill_fields_def)
next
  case (Cons k keys)
  obtain filled ss1 where f: "fill_field pw k (get profile k []) ss = (filled, ss1)"
    by (cases "fill_field pw k (get profile k []) ss")
  from fill_field_stage [OF f] obtain evs where
    e: "trace ss1 = trace ss @ evs" "field_stage k (get profile k []) filled evs" by blast
  from Cons [of ss1] obtain fields where
    r: "trace (fill_fields pw profile keys ss1) = trace ss1 @ concat fields"
      "list_all2 (\<lambda>k evs. \<exists>filled. field_stage k (get profile k []) filled evs) keys fields"
    by blast
  have "fill_fields pw profile (k # keys) ss = fill_fields pw profile keys ss1"
    using f by (simp add: fill_fields_def)
  with e r show ?case
    by (intro exI [of _ "evs # fields"]) auto
qed

lemma final_step_stage:
  "\<exists>evs. trace (final_step pw cues i ss) = trace ss @ evs \<and> cue_stage pw cues i evs"
proof (cases "input_value_nth pw text_input_selector i (page ss) = Inr []
              \<and> (\<exists>blob v. blob_of pw i (page ss) = Inr blob \<and> first_cue cues blob = Some v)")
  case False
  then have "final_step pw cues i ss = ss"
    by (auto simp: final_step_def split: sum.splits option.splits)
  then show ?thesis by (simp add: cue_stage_def)
next
  case True
  then obtain blob v where iv: "input_value_nth pw text_input_selector i (page ss) = Inr []"
    and b: "blob_of pw i (page ss) = Inr blob" and c: "first_cue cues blob = Some v"
    by blast
  obtain r p where f: "fill_nth pw text_input_selector i v (page ss) = (r, p)"
    by (cases "fill_nth pw text_input_selector i v (page ss)")
  have "\<exists>ok. trace (final_step pw cues i ss) = trace ss @ [ByCue i v ok]"
    using iv b c f by (cases r) (auto simp: final_step_def)
  then obtain ok where "trace (final_step pw cues i ss) = trace ss @ [ByCue i v ok]" by blast
  moreover have "cue_stage pw cues i [ByCue i v ok]"
    using iv b c unfolding cue_stage_def by blast
  ultimately show ?thesis by blast
qed

lemma final_pass_stage:
  "\<exists>stretches. trace (foldl (\<lambda>ss i. final_step pw cues i ss) ss is) = trace ss @ concat stretches
     \<and> list_all2 (cue_stage pw cues) is stretches"
proof (induction "is" arbitrary: ss)
  case Nil
  show ?case by simp
next
  case (Cons i "is")
  from final_step_stage [of pw cues i ss] obtain evs where
    e: "trace (final_step pw cues i ss) = trace ss @ evs" "cue_stage pw cues i evs" by blast
  from Cons [of "final_step pw cues i ss"] obtain stretches where
    r: "trace (foldl (\<lambda>ss i. final_step pw cues i ss) (final_step pw cues i ss) is)
          = trace (final_step pw cues i ss) @ concat stretches"
      "list_all2 (cue_stage pw cues) is stretches"
    by blast
  with e show ?case
    by (intro exI [of _ "evs # stretches"]) auto
qed

text \<open>
  C8, as amended: the routine goes through the profile keys in the order of the source;
  for a key with a value it tries the label patterns of the key, in their order, up to
  the first that fills the field, and the CSS fallback selectors of the key, in their
  order, only when no label pattern filled it. After the fields, whatever they did, the
  final pass goes over the text inputs by index and fills at most once each input
  that is empty, with the value of the first cue (city, employer, job title, school,
  degree, linkedin, website) that matches its placeholder, name and aria-label. The
  routine raises only when the profile lacks a key of the cues or when counting the
  text inputs raises: a failure for a field or for an input is passed over.
\<close>

theorem fill_strategy_order:
  assumes f: "fill_all_textish pw profile ss = (result, ss')"
  shows "\<exists>fields final.
       trace ss' = trace ss @ concat fields @ final
     \<and> list_all2 (\<lambda>k evs. \<exists>filled. field_stage k (get profile k []) filled evs)
          (BASIC_KEYS @ EXTRA_KEYS) fields
     \<and> (case result of
          Inl e \<Rightarrow>
            final = []
            \<and> (build_cues profile CUE_PATTERNS = Inl e
                \<or> (\<exists>p. count_all pw text_input_selector p = Inl e))
        | Inr u \<Rightarrow>
            (\<exists>cues n stretches. build_cues profile CUE_PATTERNS = Inr cues
               \<and> final = concat stretches
               \<and> list_all2 (cue_stage pw cues) [0..<n] stretches))"
proof -
  define ss1 where "ss1 = fill_fields pw profile BASIC_KEYS ss"
  define ss2 where "ss2 = fill_fields pw profile EXTRA_KEYS ss1"
  from fill_fields_stage [of pw profile BASIC_KEYS ss] obtain F1 where
    F1: "trace ss1 = trace ss @ concat F1"
      "list_all2 (\<lambda>k evs. \<exists>filled. field_stage k (get profile k []) filled evs) BASIC_KEYS F1"
    unfolding ss1_def by blast
  from fill_fields_stage [of pw profile EXTRA_KEYS ss1] obtain F2 where
    F2: "trace ss2 = trace ss1 @ concat F2"
      "list_all2 (\<lambda>k evs. \<exists>filled. field_stage k (get profile k []) filled evs) EXTRA_KEYS F2"
    unfolding ss2_def by blast
  have t2: "trace ss2 = trace ss @ concat (F1 @ F2)" using F1(1) F2(1) by simp
  have l: "list_all2 (\<lambda>k evs. \<exists>filled. field_stage k (get profile k []) filled evs)
             (BASIC_KEYS @ EXTRA_KEYS) (F1 @ F2)"
    using F1(2) F2(2) by (rule list_all2_appendI)
  show ?thesis
  proof (cases "build_cues profile CUE_PATTERNS")
    case (Inl e)
    with f have "result = Inl e" "ss' = ss2"
      by (simp_all add: fill_all_textish_def Let_def ss1_def ss2_def)
    with t2 l Inl show ?thesis
      by (intro exI [of _ "F1 @ F2"] exI [of _ "[]"]) simp
  next
    case (Inr cues)
    show ?thesis
    proof (cases "count_all pw text_input_selector (page ss2)")
      case (Inl e)
      with f Inr have "result = Inl e" "ss' = ss2"
        by (simp_all add: fill_all_textish_def Let_def ss1_def ss2_def)
      with t2 l Inl show ?thesis
        by (intro exI [of _ "F1 @ F2"] exI [of _ "[]"]) auto
    next
      case n: (Inr n)
      with f Inr have r: "result = Inr ()"
        "ss' = foldl (\<lambda>ss i. final_step pw cues i ss) ss2 [0..<n]"
        by (simp_all add: fill_all_textish_def Let_def ss1_def ss2_def)
      from final_pass_stage [of pw cues ss2 "[0..<n]"] obtain stretches where
        st: "trace ss' = trace ss2 @ concat stretches"
          "list_all2 (cue_stage pw cues) [0..<n] stretches"
        unfolding r(2) by blast
      have "\<exists>cues' n' stretches'. build_cues profile CUE_PATTERNS = Inr cues'
               \<and> concat stretches = concat stretches'
               \<and> list_all2 (cue_stage pw cues') [0..<n'] stretches'"
        using Inr st(2) by blast
      with t2 l st(1) r(1) show ?thesis
        by (intro exI [of _ "F1 @ F2"] exI [of _ "concat stretches"]) simp
    qed
  qed
qed

end
